theory Spec2Isabelle
  imports Main "HOL-Library.Multiset"
begin

section \<open>Data model\<close>

text \<open>
  A Python \<open>str\<close> is a sequence of Unicode code points; a code point is a natural number.
  \<open>py\<close> turns an ASCII literal into that form.
\<close>

type_synonym pystr = "nat list"

definition py :: "string \<Rightarrow> pystr" where
  "py s = map of_char s"

text \<open>
  A cell of a DataFrame holds a scalar or is null (\<open>None\<close>/\<open>NaN\<close>, here \<open>None\<close>).
  The scalars of the model are integers and strings. An integer stands for the number
  whatever numeric dtype pandas stores it in (a merge that introduces nulls into an
  \<open>int64\<close> column stores \<open>1\<close> as \<open>1.0\<close>; the model keeps \<open>SInt 1\<close>).
  Floats, booleans and dates are left out.
\<close>

datatype scalar = SInt int | SStr pystr

type_synonym cell = "scalar option"

text \<open>
  A DataFrame is stored by column, as pandas stores it: \<open>columns\<close> are the labels and
  \<open>colvals\<close> the value sequences, one per label, in the same order. The row index is not
  part of the model (the program never reads it).
\<close>

record dataframe =
  columns :: "pystr list"
  colvals :: "cell list list"

definition empty_frame :: dataframe where
  "empty_frame = \<lparr>columns = [], colvals = []\<rparr>"

definition nrows :: "dataframe \<Rightarrow> nat" where
  "nrows df = (case colvals df of [] \<Rightarrow> 0 | s # _ \<Rightarrow> length s)"

text \<open>
  The invariant of a table: one value sequence per label, all of one length, and labels
  that are pairwise different. Every parser of the program produces such tables.
\<close>

definition wf_frame :: "dataframe \<Rightarrow> bool" where
  "wf_frame df \<longleftrightarrow>
     length (colvals df) = length (columns df) \<and> distinct (columns df) \<and>
     list_all (\<lambda>s. length s = nrows df) (colvals df)"

datatype pd_error =
  KeyError | IndexError | AttributeError | ValueError | MergeError | ParserError |
  UnicodeDecodeError | EmptyDataError

text \<open>
  \<open>df[label]\<close>: a label that names one column selects that Series; a label that names
  several columns selects a DataFrame of them; a label that names none raises \<open>KeyError\<close>.
\<close>

datatype selection = Series "cell list" | SubFrame "cell list list"

definition getitem :: "dataframe \<Rightarrow> pystr \<Rightarrow> pd_error + selection" where
  "getitem df label =
     (case map snd (filter (\<lambda>p. fst p = label) (zip (columns df) (colvals df))) of
        [] \<Rightarrow> Inl KeyError
      | [s] \<Rightarrow> Inr (Series s)
      | ss \<Rightarrow> Inr (SubFrame ss))"

text \<open>
  \<open>Series.is_unique\<close> counts nulls as values (two nulls are a duplicate);
  \<open>Series.notnull().all()\<close> holds when no cell is null.
\<close>

definition is_unique :: "cell list \<Rightarrow> bool" where
  "is_unique s = distinct s"

definition notnull_all :: "cell list \<Rightarrow> bool" where
  "notnull_all s = list_all (\<lambda>c. c \<noteq> None) s"

section \<open>Primary key detection\<close>

text \<open>
  \<^verbatim>\<open>
  def detect_primary_key(df):
      for column in df.columns:
          if df[column].is_unique and df[column].notnull().all():
              return column
      return df.columns[0]
  \<close>
  The loop is \<open>scan_columns\<close>; \<open>Inr None\<close> is the loop running out of columns. A
  DataFrame selection has no attribute \<open>is_unique\<close>, and \<open>df.columns[0]\<close> on a table
  without columns raises \<open>IndexError\<close>.
\<close>

fun scan_columns :: "dataframe \<Rightarrow> pystr list \<Rightarrow> pd_error + pystr option" where
  "scan_columns df [] = Inr None"
| "scan_columns df (column # rest) =
     (case getitem df column of
        Inl e \<Rightarrow> Inl e
      | Inr (SubFrame ss) \<Rightarrow> Inl AttributeError
      | Inr (Series s) \<Rightarrow>
          if is_unique s \<and> notnull_all s then Inr (Some column)
          else scan_columns df rest)"

definition detect_primary_key :: "dataframe \<Rightarrow> pd_error + pystr" where
  "detect_primary_key df =
     (case scan_columns df (columns df) of
        Inl e \<Rightarrow> Inl e
      | Inr (Some column) \<Rightarrow> Inr column
      | Inr None \<Rightarrow> (case columns df of [] \<Rightarrow> Inl IndexError | c # _ \<Rightarrow> Inr c))"

text \<open>
  The property key inference looks for, stated on the table: the values of the column
  labelled \<open>c\<close> are pairwise distinct and none of them is null.
\<close>

definition column_values :: "dataframe \<Rightarrow> pystr \<Rightarrow> cell list option" where
  "column_values df c = map_of (zip (columns df) (colvals df)) c"

definition key_like :: "dataframe \<Rightarrow> pystr \<Rightarrow> bool" where
  "key_like df c =
     (case column_values df c of None \<Rightarrow> False | Some s \<Rightarrow> distinct s \<and> None \<notin> set s)"

definition ex_keys :: dataframe where
  "ex_keys = \<lparr>columns = [py ''a'', py ''b'', py ''c''],
     colvals = [[Some (SInt 1), Some (SInt 1)],
                [Some (SInt 1), Some (SInt 2)],
                [Some (SInt 3), Some (SInt 4)]]\<rparr>"

section \<open>Header cleaning\<close>

text \<open>
  \<open>str.title()\<close> walks the code points once. A code point that follows a cased one is
  replaced by its lower-case mapping, any other by its title-case mapping; the mappings
  and the \<open>Cased\<close> property come from the Unicode database of the Python runtime, which
  is not part of the repository.

  \<open>case_data c\<close> is that database for the code points this development uses, as
  \<open>(cased, title mapping, lower mapping)\<close>: ASCII, U+0130 (capital I with dot above,
  whose lower-case mapping is the two code points U+0069 U+0307) and U+0307 (combining
  dot above, not cased). It is \<open>None\<close> elsewhere, and so is \<open>str_title\<close> on a string
  that holds such a code point: the model says nothing there.
\<close>

definition case_data :: "nat \<Rightarrow> (bool \<times> pystr \<times> pystr) option" where
  "case_data c =
     (if 65 \<le> c \<and> c \<le> 90 then Some (True, [c], [c + 32])
      else if 97 \<le> c \<and> c \<le> 122 then Some (True, [c - 32], [c])
      else if c < 128 then Some (False, [c], [c])
      else if c = 304 then Some (True, [304], [105, 775])
      else if c = 775 then Some (False, [775], [775])
      else None)"

fun title_loop :: "bool \<Rightarrow> pystr \<Rightarrow> pystr option" where
  "title_loop previous_is_cased [] = Some []"
| "title_loop previous_is_cased (c # cs) =
     (case case_data c of
        None \<Rightarrow> None
      | Some (cased, title_map, lower_map) \<Rightarrow>
          (case title_loop cased cs of
             None \<Rightarrow> None
           | Some rest \<Rightarrow>
               Some ((if previous_is_cased then lower_map else title_map) @ rest)))"

definition str_title :: "pystr \<Rightarrow> pystr option" where
  "str_title s = title_loop False s"

text \<open>\<open>s.replace(old, new)\<close> for one-character \<open>old\<close> and \<open>new\<close>.\<close>

definition str_replace :: "nat \<Rightarrow> nat \<Rightarrow> pystr \<Rightarrow> pystr" where
  "str_replace old new s = map (\<lambda>c. if c = old then new else c) s"

text \<open>The list comprehension's body: \<open>col.replace('_', ' ').title()\<close>.\<close>

definition clean_name :: "pystr \<Rightarrow> pystr option" where
  "clean_name col = str_title (str_replace 95 32 col)"

text \<open>
  \<^verbatim>\<open>
  def clean_column_headers(df):
      df.columns = [col.replace('_', ' ').title() for col in df.columns]
      return df
  \<close>
  \<open>df\<close> is a reference to a DataFrame object. The store maps references to objects;
  the function assigns to the \<open>columns\<close> attribute of the object it was given and
  returns the reference it was given.
\<close>

type_synonym store = "nat \<Rightarrow> dataframe"

definition clean_column_headers :: "store \<Rightarrow> nat \<Rightarrow> (store \<times> nat) option" where
  "clean_column_headers h df =
     (case those (map clean_name (columns (h df))) of
        None \<Rightarrow> None
      | Some names \<Rightarrow> Some (h(df := (h df)\<lparr>columns := names\<rparr>), df))"

text \<open>ASCII letters and their case mappings, for stating what \<open>clean_name\<close> computes.\<close>

definition is_ascii :: "pystr \<Rightarrow> bool" where
  "is_ascii s = list_all (\<lambda>c. c < 128) s"

definition ascii_letter :: "nat \<Rightarrow> bool" where
  "ascii_letter c \<longleftrightarrow> (65 \<le> c \<and> c \<le> 90) \<or> (97 \<le> c \<and> c \<le> 122)"

definition ascii_upper :: "nat \<Rightarrow> nat" where
  "ascii_upper c = (if 97 \<le> c \<and> c \<le> 122 then c - 32 else c)"

definition ascii_lower :: "nat \<Rightarrow> nat" where
  "ascii_lower c = (if 65 \<le> c \<and> c \<le> 90 then c + 32 else c)"

text \<open>
  The character at position \<open>i\<close> of the cleaned name: an underscore becomes a space, a
  letter that starts the name or follows a non-letter is upper-cased, a letter that
  follows a letter is lower-cased, any other character stays.
\<close>

definition titled_char :: "pystr \<Rightarrow> nat \<Rightarrow> nat" where
  "titled_char name i =
     (let c = name ! i in
        if c = 95 then 32
        else if \<not> ascii_letter c then c
        else if i = 0 then ascii_upper c
        else if ascii_letter (name ! (i - 1)) then ascii_lower c
        else ascii_upper c)"

text \<open>
  The normalisation as the specification words it: underscores become spaces, the first
  character of each whitespace-delimited word is upper-cased, the rest of the word is
  left as it is.
\<close>

definition ascii_space :: "nat \<Rightarrow> bool" where
  "ascii_space c \<longleftrightarrow> c = 32 \<or> (9 \<le> c \<and> c \<le> 13)"

fun spec_title_loop :: "bool \<Rightarrow> pystr \<Rightarrow> pystr" where
  "spec_title_loop at_word_start [] = []"
| "spec_title_loop at_word_start (c # cs) =
     (if at_word_start then ascii_upper c else c) # spec_title_loop (ascii_space c) cs"

definition spec_clean_name :: "pystr \<Rightarrow> pystr" where
  "spec_clean_name col = spec_title_loop True (str_replace 95 32 col)"

definition ex_orders :: dataframe where
  "ex_orders = \<lparr>columns = [py ''order_id'', py ''file''],
     colvals = [[Some (SInt 1)], [Some (SStr (py ''a.jpg''))]]\<rparr>"

definition ex_store :: store where
  "ex_store = (\<lambda>_. empty_frame)(0 := ex_orders)"

definition ex_dotted :: dataframe where
  "ex_dotted = \<lparr>columns = [[97, 304, 98]], colvals = [[Some (SInt 1)]]\<rparr>"

definition ex_dotted_store :: store where
  "ex_dotted_store = (\<lambda>_. empty_frame)(0 := ex_dotted)"

text \<open>
  What a caller sees of two calls in a row, \<open>clean_column_headers(clean_column_headers(df))\<close>,
  and the labels of the table a call returns.
\<close>

definition clean_twice :: "store \<Rightarrow> nat \<Rightarrow> (store \<times> nat) option" where
  "clean_twice h df =
     (case clean_column_headers h df of
        None \<Rightarrow> None
      | Some (h1, r1) \<Rightarrow> clean_column_headers h1 r1)"

definition headers_after :: "(store \<times> nat) option \<Rightarrow> pystr list option" where
  "headers_after res = map_option (\<lambda>(h, r). columns (h r)) res"

text \<open>
  On an arbitrary name the result of \<open>str.title()\<close> depends on the whole Unicode
  database of the runtime. For statements about every table the builtin is a parameter:
  \<open>title\<close> stands for \<open>str.title\<close>, a function from strings to strings, and
  \<open>clean_column_headers_with title\<close> is the function with that builtin. A \<open>title\<close>
  that computes what \<open>str_title\<close> computes, wherever that is defined, is a
  \<open>runtime_title\<close>.
\<close>

definition clean_column_headers_with :: "(pystr \<Rightarrow> pystr) \<Rightarrow> store \<Rightarrow> nat \<Rightarrow> store \<times> nat" where
  "clean_column_headers_with title h df =
     (h(df := (h df)\<lparr>columns := map (\<lambda>col. title (str_replace 95 32 col)) (columns (h df))\<rparr>),
      df)"

definition runtime_title :: "(pystr \<Rightarrow> pystr) \<Rightarrow> bool" where
  "runtime_title title \<longleftrightarrow>
     (\<forall>s. case str_title s of None \<Rightarrow> True | Some t \<Rightarrow> title s = t)"

definition table_title :: "pystr \<Rightarrow> pystr" where
  "table_title s = (case str_title s of None \<Rightarrow> s | Some t \<Rightarrow> t)"

section \<open>Matcher\<close>

text \<open>
  \<^verbatim>\<open>
  def match_data(meta_df, cust_df, meta_key, cust_key):
      merged = pd.merge(meta_df, cust_df, left_on=meta_key, right_on=cust_key,
                        how='outer', indicator=True)
      matched = merged[merged['_merge'] == 'both']
      unmatched = merged[merged['_merge'] != 'both']
      return matched, unmatched
  \<close>
  \<open>pd.merge\<close> is library code. What follows models the call above: an outer join on one
  key column per side, with the indicator column.

  The key column of a side is the column its label names; a label that names no column
  raises \<open>KeyError\<close>, one that names several raises \<open>ValueError\<close>.
\<close>

definition key_values :: "dataframe \<Rightarrow> pystr \<Rightarrow> pd_error + cell list" where
  "key_values df label =
     (case getitem df label of
        Inl e \<Rightarrow> Inl e
      | Inr (Series s) \<Rightarrow> Inr s
      | Inr (SubFrame ss) \<Rightarrow> Inl ValueError)"

text \<open>
  The join indexers: one pair of row positions per row of the result, \<open>None\<close> for the
  side that has no row (pandas writes \<open>-1\<close>). Keys are compared as cell values; two null
  keys are equal to each other, as in pandas (unlike SQL).

  A left row is paired with every right row of equal key, or with none when there is no
  such row; a right row whose key no left row has stands alone. \<open>join_indexers\<close> lists
  the pairs: the left rows in order, each with its partners, then the unpaired right
  rows.

  The order in which pandas puts the rows of the result is another one, and not the same
  in every release (by key in order of first appearance, by sorted key since pandas 2.2).
  It is a parameter of the model: \<open>order\<close> rearranges the list of pairs, and what is
  known of it is that it is an \<open>arrangement\<close>, a function that permutes its argument.
\<close>

definition matches :: "cell list \<Rightarrow> cell \<Rightarrow> nat list" where
  "matches keys k = filter (\<lambda>j. keys ! j = k) [0..<length keys]"

definition left_block :: "cell list \<Rightarrow> cell list \<Rightarrow> nat \<Rightarrow> (nat option \<times> nat option) list" where
  "left_block lkeys rkeys i =
     (case matches rkeys (lkeys ! i) of
        [] \<Rightarrow> [(Some i, None)]
      | js \<Rightarrow> map (\<lambda>j. (Some i, Some j)) js)"

definition join_indexers :: "cell list \<Rightarrow> cell list \<Rightarrow> (nat option \<times> nat option) list" where
  "join_indexers lkeys rkeys =
     concat (map (left_block lkeys rkeys) [0..<length lkeys]) @
     map (\<lambda>j. (None, Some j)) (filter (\<lambda>j. rkeys ! j \<notin> set lkeys) [0..<length rkeys])"

definition arrangement ::
  "((nat option \<times> nat option) list \<Rightarrow> (nat option \<times> nat option) list) \<Rightarrow> bool" where
  "arrangement order \<longleftrightarrow> (\<forall>ps. mset (order ps) = mset ps)"

text \<open>
  The cells of a result row, column by column. Every column of a DataFrame has the
  length of its index, so a row position is always in range; the guard of \<open>cell_at\<close>
  only makes it total.
\<close>

definition cell_at :: "cell list \<Rightarrow> nat \<Rightarrow> cell" where
  "cell_at s n = (if n < length s then s ! n else None)"

definition left_cell :: "cell list \<Rightarrow> nat option \<times> nat option \<Rightarrow> cell" where
  "left_cell s p = (case fst p of None \<Rightarrow> None | Some i \<Rightarrow> cell_at s i)"

definition right_cell :: "cell list \<Rightarrow> nat option \<times> nat option \<Rightarrow> cell" where
  "right_cell s p = (case snd p of None \<Rightarrow> None | Some j \<Rightarrow> cell_at s j)"

text \<open>
  When both sides name the key alike, the result has one key column: the left key where
  the row has a left part, the right key otherwise.
\<close>

definition key_cell :: "cell list \<Rightarrow> cell list \<Rightarrow> nat option \<times> nat option \<Rightarrow> cell" where
  "key_cell lkeys rkeys p =
     (case fst p of
        Some i \<Rightarrow> cell_at lkeys i
      | None \<Rightarrow> (case snd p of Some j \<Rightarrow> cell_at rkeys j | None \<Rightarrow> None))"

definition both :: cell where
  "both = Some (SStr (py ''both''))"

fun indicator :: "nat option \<times> nat option \<Rightarrow> cell" where
  "indicator (Some i, Some j) = both"
| "indicator (Some i, None) = Some (SStr (py ''left_only''))"
| "indicator (None, Some j) = Some (SStr (py ''right_only''))"
| "indicator (None, None) = None"

definition drop_label :: "dataframe \<Rightarrow> pystr \<Rightarrow> dataframe" where
  "drop_label df label =
     \<lparr>columns = filter (\<lambda>c. c \<noteq> label) (columns df),
      colvals = map snd (filter (\<lambda>p. fst p \<noteq> label) (zip (columns df) (colvals df)))\<rparr>"

text \<open>
  With one key label for both sides the key column is kept on one side only: on the left,
  unless the left table has no rows. A label that both sides still have gets the suffix
  \<open>_x\<close> on the left and \<open>_y\<close> on the right.
\<close>

definition left_side :: "dataframe \<Rightarrow> pystr \<Rightarrow> pystr \<Rightarrow> cell list \<Rightarrow> dataframe" where
  "left_side left left_on right_on lkeys =
     (if left_on = right_on \<and> length lkeys = 0 then drop_label left left_on else left)"

definition right_side :: "dataframe \<Rightarrow> pystr \<Rightarrow> pystr \<Rightarrow> cell list \<Rightarrow> dataframe" where
  "right_side right left_on right_on lkeys =
     (if left_on = right_on \<and> 0 < length lkeys then drop_label right right_on else right)"

definition with_suffix :: "pystr list \<Rightarrow> pystr \<Rightarrow> pystr list \<Rightarrow> pystr list" where
  "with_suffix others suffix labels =
     map (\<lambda>c. if c \<in> set others then c @ suffix else c) labels"

text \<open>
  pandas 2 raises \<open>MergeError\<close> when a suffix makes two labels of one side equal that
  were different before (earlier releases warn). \<open>duplicated\<close> marks every occurrence
  of a label after its first.
\<close>

definition duplicated :: "pystr list \<Rightarrow> nat \<Rightarrow> bool" where
  "duplicated labels k \<longleftrightarrow> labels ! k \<in> set (take k labels)"

definition suffix_clash :: "pystr list \<Rightarrow> pystr list \<Rightarrow> bool" where
  "suffix_clash renamed original \<longleftrightarrow>
     list_ex (\<lambda>k. duplicated renamed k \<and> \<not> duplicated original k) [0..<length renamed]"

definition merged_columns :: "dataframe \<Rightarrow> dataframe \<Rightarrow> pystr list" where
  "merged_columns l r =
     with_suffix (columns r) (py ''_x'') (columns l) @
     with_suffix (columns l) (py ''_y'') (columns r) @ [py ''_merge'']"

definition merged_cells ::
  "dataframe \<Rightarrow> dataframe \<Rightarrow> pystr \<Rightarrow> pystr \<Rightarrow> cell list \<Rightarrow> cell list \<Rightarrow>
   (nat option \<times> nat option \<Rightarrow> cell) list" where
  "merged_cells l r left_on right_on lkeys rkeys =
     map (\<lambda>(c, s). if left_on = right_on \<and> c = left_on then key_cell lkeys rkeys
                    else left_cell s) (zip (columns l) (colvals l)) @
     map (\<lambda>(c, s). if left_on = right_on \<and> c = right_on then key_cell lkeys rkeys
                    else right_cell s) (zip (columns r) (colvals r)) @
     [indicator]"

text \<open>The result table for a given list of index pairs.\<close>

definition merge_frame ::
  "dataframe \<Rightarrow> dataframe \<Rightarrow> pystr \<Rightarrow> pystr \<Rightarrow> cell list \<Rightarrow> cell list \<Rightarrow>
   (nat option \<times> nat option) list \<Rightarrow> dataframe" where
  "merge_frame left right left_on right_on lkeys rkeys ix =
     (let l = left_side left left_on right_on lkeys;
          r = right_side right left_on right_on lkeys
      in \<lparr>columns = merged_columns l r,
          colvals = map (\<lambda>f. map f ix) (merged_cells l r left_on right_on lkeys rkeys)\<rparr>)"

definition reserved_labels :: "pystr list" where
  "reserved_labels = [py ''_left_indicator'', py ''_right_indicator'', py ''_merge'']"

text \<open>
  pandas refuses (\<open>ValueError\<close>) to merge a numeric key column with a key column of
  strings. The check reads the dtypes of the two columns and, for a column of dtype
  \<open>object\<close>, the kind of its values. The tables of the program come from its parsers, so
  the dtype of a column is read off its cells: a column that holds a string has dtype
  \<open>object\<close>, any other column is numeric (a column of nulls too, as the CSV and JSON
  readers produce it). A numeric column is inferred as integer or
  floating; a column of strings as string, or as mixed when it has a null too; a column
  of strings and integers as mixed-integer, which pandas lets pass. The check is skipped
  when one of the columns is empty.
\<close>

definition has_str :: "cell list \<Rightarrow> bool" where
  "has_str s = list_ex (\<lambda>c. case c of Some (SStr x) \<Rightarrow> True | _ \<Rightarrow> False) s"

definition has_int :: "cell list \<Rightarrow> bool" where
  "has_int s = list_ex (\<lambda>c. case c of Some (SInt x) \<Rightarrow> True | _ \<Rightarrow> False) s"

definition key_mismatch :: "cell list \<Rightarrow> cell list \<Rightarrow> bool" where
  "key_mismatch lkeys rkeys \<longleftrightarrow>
     lkeys \<noteq> [] \<and> rkeys \<noteq> [] \<and>
     (has_str lkeys \<and> \<not> has_int lkeys \<and> \<not> has_str rkeys \<or>
      has_str rkeys \<and> \<not> has_int rkeys \<and> \<not> has_str lkeys)"

text \<open>
  \<open>pd.merge(left, right, left_on=..., right_on=..., how='outer', indicator=True)\<close>.
  The rows of the result are the index pairs in the order \<open>order\<close> puts them.
\<close>

definition pd_merge ::
  "((nat option \<times> nat option) list \<Rightarrow> (nat option \<times> nat option) list) \<Rightarrow>
   dataframe \<Rightarrow> dataframe \<Rightarrow> pystr \<Rightarrow> pystr \<Rightarrow> pd_error + dataframe" where
  "pd_merge order left right left_on right_on =
     (case key_values left left_on of
        Inl e \<Rightarrow> Inl e
      | Inr lkeys \<Rightarrow>
     (case key_values right right_on of
        Inl e \<Rightarrow> Inl e
      | Inr rkeys \<Rightarrow>
          if key_mismatch lkeys rkeys then Inl ValueError
          else if list_ex (\<lambda>c. c \<in> set (columns left) \<or> c \<in> set (columns right)) reserved_labels
          then Inl ValueError
          else
            let l = left_side left left_on right_on lkeys;
                r = right_side right left_on right_on lkeys
            in if suffix_clash (with_suffix (columns r) (py ''_x'') (columns l)) (columns l) \<or>
                  suffix_clash (with_suffix (columns l) (py ''_y'') (columns r)) (columns r)
               then Inl MergeError
               else Inr (merge_frame left right left_on right_on lkeys rkeys
                           (order (join_indexers lkeys rkeys)))))"

text \<open>\<open>df[mask]\<close> with a boolean Series: the rows where the mask holds, in order.\<close>

definition select_rows :: "dataframe \<Rightarrow> bool list \<Rightarrow> dataframe" where
  "select_rows df keep =
     df\<lparr>colvals := map (\<lambda>s. map snd (filter fst (zip keep s))) (colvals df)\<rparr>"

text \<open>
  \<open>merged['_merge']\<close> is a Series: \<open>pd_merge\<close> refuses inputs that have a column of
  that label, so the result has exactly one. The \<open>SubFrame\<close> case cannot occur.
\<close>

definition match_data ::
  "((nat option \<times> nat option) list \<Rightarrow> (nat option \<times> nat option) list) \<Rightarrow>
   dataframe \<Rightarrow> dataframe \<Rightarrow> pystr \<Rightarrow> pystr \<Rightarrow> pd_error + (dataframe \<times> dataframe)" where
  "match_data order meta_df cust_df meta_key cust_key =
     (case pd_merge order meta_df cust_df meta_key cust_key of
        Inl e \<Rightarrow> Inl e
      | Inr merged \<Rightarrow>
          (case getitem merged (py ''_merge'') of
             Inl e \<Rightarrow> Inl e
           | Inr (SubFrame ss) \<Rightarrow> Inl ValueError
           | Inr (Series ind) \<Rightarrow>
               Inr (select_rows merged (map (\<lambda>c. c = both) ind),
                    select_rows merged (map (\<lambda>c. c \<noteq> both) ind))))"

text \<open>\<open>df.drop(columns=labels)\<close>: a new table; a label that names no column raises.\<close>

definition drop_columns :: "dataframe \<Rightarrow> pystr list \<Rightarrow> pd_error + dataframe" where
  "drop_columns df labels =
     (if list_ex (\<lambda>c. c \<notin> set (columns df)) labels then Inl KeyError
      else Inr \<lparr>columns = filter (\<lambda>c. c \<notin> set labels) (columns df),
                colvals = map snd (filter (\<lambda>p. fst p \<notin> set labels)
                                     (zip (columns df) (colvals df)))\<rparr>)"

text \<open>
  Where the rows of the two returned tables come from: row \<open>n\<close> of \<open>matched\<close> is built
  from the \<open>n\<close>-th matched pair, row \<open>n\<close> of \<open>unmatched\<close> from the \<open>n\<close>-th unmatched pair.
  \<open>left_count i ps\<close> is the number of pairs of \<open>ps\<close> whose left part is row \<open>i\<close>.
\<close>

definition matched_pairs ::
  "((nat option \<times> nat option) list \<Rightarrow> (nat option \<times> nat option) list) \<Rightarrow>
   cell list \<Rightarrow> cell list \<Rightarrow> (nat option \<times> nat option) list" where
  "matched_pairs order lkeys rkeys =
     filter (\<lambda>p. indicator p = both) (order (join_indexers lkeys rkeys))"

definition unmatched_pairs ::
  "((nat option \<times> nat option) list \<Rightarrow> (nat option \<times> nat option) list) \<Rightarrow>
   cell list \<Rightarrow> cell list \<Rightarrow> (nat option \<times> nat option) list" where
  "unmatched_pairs order lkeys rkeys =
     filter (\<lambda>p. indicator p \<noteq> both) (order (join_indexers lkeys rkeys))"



text \<open>
  What a row holds: its cells, each with the label of its column. Row \<open>n\<close> of a result
  \<open>m\<close> holds row \<open>i\<close> of an input \<open>df\<close> when every cell of that input row is a cell of
  the result row, under its own label or under that label with the suffix of its side.
\<close>

definition row_cells :: "dataframe \<Rightarrow> nat \<Rightarrow> (pystr \<times> cell) list" where
  "row_cells df n = zip (columns df) (map (\<lambda>s. s ! n) (colvals df))"

definition holds_row :: "pystr \<Rightarrow> dataframe \<Rightarrow> nat \<Rightarrow> dataframe \<Rightarrow> nat \<Rightarrow> bool" where
  "holds_row suffix m n df i \<longleftrightarrow>
     list_all (\<lambda>(c, v). (c, v) \<in> set (row_cells m n) \<or> (c @ suffix, v) \<in> set (row_cells m n))
       (row_cells df i)"

text \<open>
  Two tables can be merged without a clash of labels when no label they share, once
  suffixed, is a label its table already has.
\<close>

definition suffix_safe :: "dataframe \<Rightarrow> dataframe \<Rightarrow> bool" where
  "suffix_safe l r \<longleftrightarrow>
     list_all (\<lambda>c. if c \<in> set (columns r)
                    then c @ py ''_x'' \<notin> set (columns l) \<and> c @ py ''_y'' \<notin> set (columns r)
                    else True)
       (columns l)"

definition no_reserved :: "dataframe \<Rightarrow> bool" where
  "no_reserved df \<longleftrightarrow> list_all (\<lambda>c. c \<notin> set (columns df)) reserved_labels"

definition ex_meta :: dataframe where
  "ex_meta = \<lparr>columns = [py ''id'', py ''file''],
     colvals = [[Some (SInt 1), Some (SInt 2)],
                [Some (SStr (py ''a.jpg'')), Some (SStr (py ''b.jpg''))]]\<rparr>"

definition ex_cust :: dataframe where
  "ex_cust = \<lparr>columns = [py ''cust_id'', py ''file''],
     colvals = [[Some (SInt 1), Some (SInt 3)],
                [Some (SStr (py ''a.jpg'')), Some (SStr (py ''c.jpg''))]]\<rparr>"

definition ex_two_fives :: dataframe where
  "ex_two_fives = \<lparr>columns = [py ''k'', py ''a''],
     colvals = [[Some (SInt 5), Some (SInt 5)], [Some (SInt 10), Some (SInt 20)]]\<rparr>"

definition ex_one_five :: dataframe where
  "ex_one_five = \<lparr>columns = [py ''k'', py ''b''],
     colvals = [[Some (SInt 5)], [Some (SInt 30)]]\<rparr>"

section \<open>File parsing\<close>

text \<open>
  \<^verbatim>\<open>
  def parse_metadata(file_content, filetype, filename):
      try:
          if filetype == "CSV":
              return pd.read_csv(StringIO(file_content.decode('utf-8')))
          elif filetype == "JSON":
              return pd.read_json(StringIO(file_content.decode('utf-8')))
          elif filetype == "XML":
              tree = ET.parse(BytesIO(file_content))
              root = tree.getroot()
              rows = []
              for child in root:
                  row = {}
                  for sub in child:
                      row[sub.tag] = sub.text
                  rows.append(row)
              return pd.DataFrame(rows)
          else:
              st.warning("Unsupported file format.")
              return pd.DataFrame()
      except Exception as e:
          st.error(f"Failed to parse file {filename}: {e}")
          return pd.DataFrame()
  \<close>
  The function is a dispatch around library readers. \<open>bytes.decode\<close> is modelled in
  full. \<open>pd.read_csv\<close> and \<open>pd.read_json\<close> are modelled on a part of their inputs, chosen
  so that what pandas does there is beyond doubt; on every other input the model answers
  \<open>None\<close>, which says nothing about pandas. \<open>ET.parse\<close> is a parameter.
\<close>

subsection \<open>Decoding\<close>

text \<open>
  \<open>bytes\<close> is a sequence of numbers below 256. \<open>bytes.decode('utf-8')\<close> accepts the
  well-formed byte sequences of the Unicode standard (shortest form, no surrogates,
  nothing above U+10FFFF) and raises \<open>UnicodeDecodeError\<close> on anything else.
\<close>

type_synonym bytes = "nat list"

definition continuation :: "nat \<Rightarrow> bool" where
  "continuation b \<longleftrightarrow> 128 \<le> b \<and> b < 192"

definition sequence_length :: "nat \<Rightarrow> nat" where
  "sequence_length b =
     (if b < 128 then 1 else if 194 \<le> b \<and> b < 224 then 2
      else if 224 \<le> b \<and> b < 240 then 3 else if 240 \<le> b \<and> b < 245 then 4 else 0)"

definition well_formed :: "bytes \<Rightarrow> bool" where
  "well_formed s =
     (case s of
        [b] \<Rightarrow> True
      | [b, c] \<Rightarrow> continuation c
      | [b, c, d] \<Rightarrow>
          continuation c \<and> continuation d \<and>
          (if b = 224 then 160 \<le> c else if b = 237 then c < 160 else True)
      | [b, c, d, e] \<Rightarrow>
          continuation c \<and> continuation d \<and> continuation e \<and>
          (if b = 240 then 144 \<le> c else if b = 244 then c < 144 else True)
      | _ \<Rightarrow> False)"

definition code_point :: "bytes \<Rightarrow> nat" where
  "code_point s =
     (case s of
        [b] \<Rightarrow> b
      | [b, c] \<Rightarrow> (b - 192) * 64 + (c - 128)
      | [b, c, d] \<Rightarrow> (b - 224) * 4096 + (c - 128) * 64 + (d - 128)
      | [b, c, d, e] \<Rightarrow> (b - 240) * 262144 + (c - 128) * 4096 + (d - 128) * 64 + (e - 128)
      | _ \<Rightarrow> 0)"

fun decode_utf8 :: "bytes \<Rightarrow> pd_error + pystr" where
  "decode_utf8 [] = Inr []"
| "decode_utf8 (b # bs) =
     (let n = sequence_length b; s = take n (b # bs)
      in if n = 0 \<or> length s < n \<or> \<not> well_formed s then Inl UnicodeDecodeError
         else (case decode_utf8 (drop (n - 1) bs) of
                 Inl e \<Rightarrow> Inl e
               | Inr cs \<Rightarrow> Inr (code_point s # cs)))"

subsection \<open>Fields\<close>

text \<open>
  The readers infer the type of a column from its fields. Two kinds of field are read
  the same way by every release of pandas: an integer literal, and a word that starts
  with a letter, has only visible ASCII characters and is not one of the words read as
  a number, a truth value or a missing value.
\<close>

definition digit :: "nat \<Rightarrow> bool" where
  "digit c \<longleftrightarrow> 48 \<le> c \<and> c \<le> 57"

definition digits_value :: "pystr \<Rightarrow> int" where
  "digits_value ds = foldl (\<lambda>n c. 10 * n + int (c - 48)) 0 ds"

definition int_literal :: "pystr \<Rightarrow> bool" where
  "int_literal f =
     (case f of
        [] \<Rightarrow> False
      | c # cs \<Rightarrow> if c = 45 then cs \<noteq> [] \<and> list_all digit cs else list_all digit f)"

definition int_value :: "pystr \<Rightarrow> int" where
  "int_value f =
     (case f of
        [] \<Rightarrow> 0
      | c # cs \<Rightarrow> if c = 45 then - digits_value cs else digits_value f)"

definition int64 :: "int \<Rightarrow> bool" where
  "int64 n \<longleftrightarrow> - (2 ^ 63) \<le> n \<and> n < 2 ^ 63"

definition visible :: "nat \<Rightarrow> bool" where
  "visible c \<longleftrightarrow> 33 \<le> c \<and> c \<le> 126"

definition special_words :: "pystr list" where
  "special_words =
     map py [''inf'', ''infinity'', ''nan'', ''nat'', ''true'', ''false'',
             ''na'', ''null'', ''none'', ''n/a'']"

definition text_field :: "pystr \<Rightarrow> bool" where
  "text_field f \<longleftrightarrow>
     f \<noteq> [] \<and> ascii_letter (hd f) \<and> list_all visible f \<and>
     map ascii_lower f \<notin> set special_words"

subsection \<open>Reading CSV\<close>

text \<open>
  \<open>pd.read_csv(StringIO(text))\<close> with every option at its default: comma separated,
  the first line is the header, no index column. An empty text raises
  \<open>EmptyDataError\<close>. The model covers texts without quote characters and blank lines,
  whose header fields are pairwise different words and whose other lines have as many
  fields as the header.

  A column whose fields are all integer literals (of 64 bits) becomes a column of
  integers. A column of words and empty fields becomes a column of strings, an empty
  field a null. Other columns (floats, truth values, mixtures) are not covered.
\<close>

fun split_on :: "nat \<Rightarrow> pystr \<Rightarrow> pystr list" where
  "split_on sep [] = [[]]"
| "split_on sep (c # cs) =
     (if c = sep then [] # split_on sep cs
      else (case split_on sep cs of
              [] \<Rightarrow> [[c]]
            | f # fs \<Rightarrow> (c # f) # fs))"

definition csv_lines :: "pystr \<Rightarrow> pystr list" where
  "csv_lines text = (let ls = split_on 10 text in if last ls = [] then butlast ls else ls)"

definition int_column :: "pystr list \<Rightarrow> bool" where
  "int_column fs = list_all (\<lambda>f. int_literal f \<and> int64 (int_value f)) fs"

definition word_column :: "pystr list \<Rightarrow> bool" where
  "word_column fs \<longleftrightarrow> list_all (\<lambda>f. f = [] \<or> text_field f) fs \<and> list_ex text_field fs"

definition infer_column :: "pystr list \<Rightarrow> cell list option" where
  "infer_column fs =
     (if int_column fs then Some (map (\<lambda>f. Some (SInt (int_value f))) fs)
      else if word_column fs then Some (map (\<lambda>f. if f = [] then None else Some (SStr f)) fs)
      else None)"

definition csv_table :: "pystr \<Rightarrow> pystr list \<Rightarrow> pystr list list \<Rightarrow> bool" where
  "csv_table text header body \<longleftrightarrow>
     text \<noteq> [] \<and> 34 \<notin> set text \<and> [] \<notin> set (csv_lines text) \<and>
     map (split_on 44) (csv_lines text) = header # body \<and>
     list_all text_field header \<and> distinct header \<and>
     list_all (\<lambda>r. length r = length header) body"

definition csv_column :: "pystr list list \<Rightarrow> nat \<Rightarrow> pystr list" where
  "csv_column body k = map (\<lambda>r. r ! k) body"

definition pd_read_csv :: "pystr \<Rightarrow> (pd_error + dataframe) option" where
  "pd_read_csv text =
     (if text = [] then Some (Inl EmptyDataError)
      else (case map (split_on 44) (csv_lines text) of
              [] \<Rightarrow> None
            | header # body \<Rightarrow>
                if csv_table text header body
                then (case those (map (\<lambda>k. infer_column (csv_column body k))
                                    [0..<length header]) of
                        None \<Rightarrow> None
                      | Some cols \<Rightarrow> Some (Inr \<lparr>columns = header, colvals = cols\<rparr>))
                else None))"

subsection \<open>Reading JSON\<close>

text \<open>
  \<open>pd.read_json(StringIO(text))\<close> with every option at its default decodes the text
  (\<open>ujson\<close>) and hands the value to the \<open>DataFrame\<close> constructor, in the orientation
  \<open>columns\<close>. The model reads documents made of objects, arrays, strings without escape
  sequences, integers of 64 bits, \<open>null\<close>, \<open>true\<close> and \<open>false\<close>; any other text is not
  covered.
\<close>

datatype json =
  JNull | JBool bool | JInt int | JStr pystr | JArr "json list" | JObj "(pystr \<times> json) list"

datatype token =
  LBrace | RBrace | LBracket | RBracket | Colon | Comma |
  TStr pystr | TInt int | TBool bool | TNull

definition punctuation :: "nat \<Rightarrow> token option" where
  "punctuation c =
     (if c = 123 then Some LBrace else if c = 125 then Some RBrace
      else if c = 91 then Some LBracket else if c = 93 then Some RBracket
      else if c = 58 then Some Colon else if c = 44 then Some Comma else None)"

definition json_space :: "nat \<Rightarrow> bool" where
  "json_space c \<longleftrightarrow> c = 32 \<or> c = 9 \<or> c = 10 \<or> c = 13"

text \<open>A JSON integer has no leading zero; \<open>-0\<close> is left out.\<close>

definition json_int :: "pystr \<Rightarrow> bool" where
  "json_int w \<longleftrightarrow>
     int_literal w \<and> int64 (int_value w) \<and>
     (w = [48] \<or> hd (if hd w = 45 then tl w else w) \<noteq> 48)"

definition word_token :: "pystr \<Rightarrow> token option" where
  "word_token w =
     (if w = py ''null'' then Some TNull
      else if w = py ''true'' then Some (TBool True)
      else if w = py ''false'' then Some (TBool False)
      else if json_int w then Some (TInt (int_value w))
      else None)"

datatype lexer = Between | InString pystr | InWord pystr

fun lex :: "lexer \<Rightarrow> pystr \<Rightarrow> token list option" where
  "lex Between [] = Some []"
| "lex (InString s) [] = None"
| "lex (InWord w) [] = map_option (\<lambda>t. [t]) (word_token w)"
| "lex Between (c # cs) =
     (if json_space c then lex Between cs
      else if c = 34 then lex (InString []) cs
      else (case punctuation c of
              Some p \<Rightarrow> map_option (Cons p) (lex Between cs)
            | None \<Rightarrow> lex (InWord [c]) cs))"
| "lex (InString s) (c # cs) =
     (if c = 34 then map_option (Cons (TStr s)) (lex Between cs)
      else if c = 92 \<or> c < 32 then None
      else lex (InString (s @ [c])) cs)"
| "lex (InWord w) (c # cs) =
     (if json_space c
      then (case word_token w of
              None \<Rightarrow> None
            | Some t \<Rightarrow> map_option (Cons t) (lex Between cs))
      else (case punctuation c of
              Some p \<Rightarrow>
                (case word_token w of
                   None \<Rightarrow> None
                 | Some t \<Rightarrow> map_option (\<lambda>ts. t # p # ts) (lex Between cs))
            | None \<Rightarrow> if c = 34 then None else lex (InWord (w @ [c])) cs))"

text \<open>
  The parser takes fuel, one unit per nesting step; the number of tokens is always
  enough. A text that is not a document of the grammar gives \<open>None\<close>.
\<close>

fun parse_value :: "nat \<Rightarrow> token list \<Rightarrow> (json \<times> token list) option"
  and parse_members :: "nat \<Rightarrow> token list \<Rightarrow> ((pystr \<times> json) list \<times> token list) option"
  and parse_elements :: "nat \<Rightarrow> token list \<Rightarrow> (json list \<times> token list) option" where
  "parse_value 0 ts = None"
| "parse_value (Suc n) [] = None"
| "parse_value (Suc n) (TNull # ts) = Some (JNull, ts)"
| "parse_value (Suc n) (TBool b # ts) = Some (JBool b, ts)"
| "parse_value (Suc n) (TInt i # ts) = Some (JInt i, ts)"
| "parse_value (Suc n) (TStr s # ts) = Some (JStr s, ts)"
| "parse_value (Suc n) (LBrace # RBrace # ts) = Some (JObj [], ts)"
| "parse_value (Suc n) (LBrace # ts) =
     map_option (\<lambda>(ms, rest). (JObj ms, rest)) (parse_members n ts)"
| "parse_value (Suc n) (LBracket # RBracket # ts) = Some (JArr [], ts)"
| "parse_value (Suc n) (LBracket # ts) =
     map_option (\<lambda>(vs, rest). (JArr vs, rest)) (parse_elements n ts)"
| "parse_value (Suc n) (t # ts) = None"
| "parse_members 0 ts = None"
| "parse_members (Suc n) (TStr k # Colon # ts) =
     (case parse_value n ts of
        Some (v, Comma # rest) \<Rightarrow>
          map_option (\<lambda>(ms, r). ((k, v) # ms, r)) (parse_members n rest)
      | Some (v, RBrace # rest) \<Rightarrow> Some ([(k, v)], rest)
      | _ \<Rightarrow> None)"
| "parse_members (Suc n) ts = None"
| "parse_elements 0 ts = None"
| "parse_elements (Suc n) ts =
     (case parse_value n ts of
        Some (v, Comma # rest) \<Rightarrow>
          map_option (\<lambda>(vs, r). (v # vs, r)) (parse_elements n rest)
      | Some (v, RBracket # rest) \<Rightarrow> Some ([v], rest)
      | _ \<Rightarrow> None)"

definition json_loads :: "pystr \<Rightarrow> json option" where
  "json_loads text =
     (case lex Between text of
        None \<Rightarrow> None
      | Some ts \<Rightarrow>
          (case parse_value (length ts) ts of
             Some (v, []) \<Rightarrow> Some v
           | _ \<Rightarrow> None))"

text \<open>
  The table of a decoded value. A number, a string or a truth value is no table:
  the constructor raises \<open>ValueError\<close>. An object whose members are objects with the
  same keys is a table by column (the form \<open>DataFrame.to_json\<close> writes): the outer keys
  are the column labels, the inner keys the row labels. An array of objects is a table
  by row; the column labels are the keys in the order of their first appearance, and a
  key an object does not have is null there.

  pandas (release 2) then converts labels and values where it can. A label is left alone
  when it is a word, and its column is not tried as a date when the label does not look
  like the name of a date (\<open>date_label\<close>). A column of integers stays one of integers; a
  column of words and nulls stays one of strings. Tables with other labels or other
  columns, or without a row or without a column, are not covered.
\<close>

definition date_label :: "pystr \<Rightarrow> bool" where
  "date_label c \<longleftrightarrow>
     (let l = map ascii_lower c
      in drop (length l - 3) l = py ''_at'' \<or> drop (length l - 5) l = py ''_time'' \<or>
         l = py ''modified'' \<or> l = py ''date'' \<or> l = py ''datetime'' \<or>
         take 9 l = py ''timestamp'')"

definition label_ok :: "pystr \<Rightarrow> bool" where
  "label_ok c \<longleftrightarrow> text_field c \<and> \<not> date_label c"

fun int_json :: "json \<Rightarrow> bool" where
  "int_json (JInt n) = True"
| "int_json v = False"

fun word_json :: "json \<Rightarrow> bool" where
  "word_json (JStr s) = text_field s"
| "word_json v = False"

fun json_cell :: "json \<Rightarrow> cell" where
  "json_cell (JInt n) = Some (SInt n)"
| "json_cell (JStr s) = Some (SStr s)"
| "json_cell v = None"

definition infer_json_column :: "json list \<Rightarrow> cell list option" where
  "infer_json_column vs =
     (if vs \<noteq> [] \<and>
         (list_all int_json vs \<or>
          list_all (\<lambda>v. v = JNull \<or> word_json v) vs \<and> list_ex word_json vs)
      then Some (map json_cell vs) else None)"

fun members :: "json \<Rightarrow> (pystr \<times> json) list option" where
  "members (JObj ms) = Some ms"
| "members v = None"

definition lookup :: "(pystr \<times> json) list \<Rightarrow> pystr \<Rightarrow> json" where
  "lookup ms k = (case map_of ms k of None \<Rightarrow> JNull | Some v \<Rightarrow> v)"

definition first_seen :: "pystr list \<Rightarrow> pystr list" where
  "first_seen ks = rev (remdups (rev ks))"

definition frame_of_rows :: "(pystr \<times> json) list list \<Rightarrow> dataframe option" where
  "frame_of_rows rows =
     (let labels = first_seen (concat (map (map fst) rows))
      in if labels \<noteq> [] \<and> list_all label_ok labels \<and>
            list_all (\<lambda>row. distinct (map fst row)) rows
         then map_option (\<lambda>cols. \<lparr>columns = labels, colvals = cols\<rparr>)
                (those (map (\<lambda>c. infer_json_column (map (\<lambda>row. lookup row c) rows)) labels))
         else None)"

definition frame_of_columns :: "(pystr \<times> json) list \<Rightarrow> dataframe option" where
  "frame_of_columns cols =
     (case those (map (\<lambda>(c, v). members v) cols) of
        None \<Rightarrow> None
      | Some inner \<Rightarrow>
          if cols \<noteq> [] \<and> distinct (map fst cols) \<and> list_all label_ok (map fst cols) \<and>
             list_all (\<lambda>ms. map fst ms = map fst (hd inner)) inner \<and>
             distinct (map fst (hd inner)) \<and>
             list_all (\<lambda>k. int_literal k \<or> text_field k) (map fst (hd inner))
          then map_option (\<lambda>vals. \<lparr>columns = map fst cols, colvals = vals\<rparr>)
                 (those (map (\<lambda>ms. infer_json_column (map snd ms)) inner))
          else None)"

fun frame_of_json :: "json \<Rightarrow> (pd_error + dataframe) option" where
  "frame_of_json (JInt n) = Some (Inl ValueError)"
| "frame_of_json (JStr s) = Some (Inl ValueError)"
| "frame_of_json (JBool b) = Some (Inl ValueError)"
| "frame_of_json JNull = None"
| "frame_of_json (JObj cols) = map_option Inr (frame_of_columns cols)"
| "frame_of_json (JArr vs) =
     (case those (map members vs) of
        None \<Rightarrow> None
      | Some rows \<Rightarrow> map_option Inr (frame_of_rows rows))"

definition pd_read_json :: "pystr \<Rightarrow> (pd_error + dataframe) option" where
  "pd_read_json text =
     (case json_loads text of
        None \<Rightarrow> None
      | Some v \<Rightarrow> frame_of_json v)"

subsection \<open>Reading XML\<close>

text \<open>
  \<open>ET.parse\<close> is library code and a parameter of the model: it gives the root element or
  raises. An element has a tag, a text (or \<open>None\<close>) and children. A row is a \<open>dict\<close>, kept
  as the list of its items in insertion order; \<open>row[k] = v\<close> replaces the value of a key
  the row has and appends the item otherwise. \<open>pd.DataFrame(rows)\<close> of a list of such rows
  has the keys as labels, in the order of their first appearance, and null where a row
  has no such key or its text is \<open>None\<close>.
\<close>

datatype element = Element pystr "pystr option" "element list"

fun tag :: "element \<Rightarrow> pystr" where
  "tag (Element t x cs) = t"

fun text_of :: "element \<Rightarrow> pystr option" where
  "text_of (Element t x cs) = x"

fun children :: "element \<Rightarrow> element list" where
  "children (Element t x cs) = cs"

fun setitem :: "(pystr \<times> pystr option) list \<Rightarrow> pystr \<Rightarrow> pystr option \<Rightarrow> (pystr \<times> pystr option) list" where
  "setitem [] k v = [(k, v)]"
| "setitem ((k', v') # row) k v =
     (if k' = k then (k, v) # row else (k', v') # setitem row k v)"

definition row_of :: "element \<Rightarrow> (pystr \<times> pystr option) list" where
  "row_of child = foldl (\<lambda>row sub. setitem row (tag sub) (text_of sub)) [] (children child)"

definition frame_of_records :: "(pystr \<times> pystr option) list list \<Rightarrow> dataframe" where
  "frame_of_records rows =
     (let labels = first_seen (concat (map (map fst) rows))
      in \<lparr>columns = labels,
          colvals = map (\<lambda>c. map (\<lambda>row. case map_of row c of
                                           Some (Some s) \<Rightarrow> Some (SStr s)
                                         | _ \<Rightarrow> None) rows) labels\<rparr>)"

subsection \<open>The dispatch\<close>

text \<open>
  \<open>st.warning\<close> and \<open>st.error\<close> show a message to the user; the model returns the messages
  with the table. \<open>StError filename e\<close> is the message of the handler, which names the
  file and the exception. \<open>parse_body\<close> is the body of the \<open>try\<close>, \<open>parse_metadata\<close> the
  whole function: \<open>except Exception\<close> catches every exception of the model.
\<close>

datatype report = StWarning pystr | StError pystr pd_error

definition parse_body ::
  "(bytes \<Rightarrow> pd_error + element) \<Rightarrow> bytes \<Rightarrow> pystr \<Rightarrow>
   (pd_error + dataframe \<times> report list) option" where
  "parse_body et_parse file_content filetype =
     (if filetype = py ''CSV'' then
        (case decode_utf8 file_content of
           Inl e \<Rightarrow> Some (Inl e)
         | Inr text \<Rightarrow> map_option (map_sum id (\<lambda>df. (df, []))) (pd_read_csv text))
      else if filetype = py ''JSON'' then
        (case decode_utf8 file_content of
           Inl e \<Rightarrow> Some (Inl e)
         | Inr text \<Rightarrow> map_option (map_sum id (\<lambda>df. (df, []))) (pd_read_json text))
      else if filetype = py ''XML'' then
        (case et_parse file_content of
           Inl e \<Rightarrow> Some (Inl e)
         | Inr root \<Rightarrow> Some (Inr (frame_of_records (map row_of (children root)), [])))
      else Some (Inr (empty_frame, [StWarning (py ''Unsupported file format.'')])))"

definition parse_metadata ::
  "(bytes \<Rightarrow> pd_error + element) \<Rightarrow> bytes \<Rightarrow> pystr \<Rightarrow> pystr \<Rightarrow>
   (dataframe \<times> report list) option" where
  "parse_metadata et_parse file_content filetype filename =
     map_option (\<lambda>res. case res of
                         Inl e \<Rightarrow> (empty_frame, [StError filename e])
                       | Inr out \<Rightarrow> out)
       (parse_body et_parse file_content filetype)"

text \<open>
  What the specification says of the cells of a parsed CSV file (every value a string, or
  missing), and of a JSON value that is no array.
\<close>

definition string_cells :: "dataframe \<Rightarrow> bool" where
  "string_cells df =
     list_all (list_all (\<lambda>c. case c of Some (SInt n) \<Rightarrow> False | _ \<Rightarrow> True)) (colvals df)"

fun top_level_array :: "json \<Rightarrow> bool" where
  "top_level_array (JArr vs) = True"
| "top_level_array v = False"

fun top_level_scalar :: "json \<Rightarrow> bool" where
  "top_level_scalar (JInt n) = True"
| "top_level_scalar (JStr s) = True"
| "top_level_scalar (JBool b) = True"
| "top_level_scalar v = False"

definition no_parser :: "bytes \<Rightarrow> pd_error + element" where
  "no_parser file_content = Inl ParserError"

definition ex_csv :: bytes where
  "ex_csv = py ''id,file'' @ [10] @ py ''1,a.jpg'' @ [10] @ py ''2,b.jpg'' @ [10]"

definition ex_json_columns :: bytes where
  "ex_json_columns =
     py ''{'' @ [34] @ py ''id'' @ [34] @ py '':{'' @ [34] @ py ''0'' @ [34] @ py '':1,'' @
     [34] @ py ''1'' @ [34] @ py '':2}}''"

definition ex_json_number :: bytes where
  "ex_json_number = py ''42''"

section \<open>Properties of key inference\<close>

lemma notnull_all_iff: "notnull_all s \<longleftrightarrow> None \<notin> set s"
  unfolding notnull_all_def by (induction s) (auto simp: neq_commute)

lemma filter_zip_distinct:
  "distinct cs \<Longrightarrow> length vs = length cs \<Longrightarrow> c \<in> set cs \<Longrightarrow>
   \<exists>s. map snd (filter (\<lambda>p. fst p = c) (zip cs vs)) = [s] \<and> map_of (zip cs vs) c = Some s"
proof (induction cs arbitrary: vs)
  case Nil
  then show ?case by simp
next
  case (Cons a cs)
  then obtain v vs' where vs: "vs = v # vs'" by (cases vs) auto
  show ?case
  proof (cases "a = c")
    case True
    with Cons.prems vs have "c \<notin> set cs" by simp
    then have "filter (\<lambda>p. fst p = c) (zip cs vs') = []"
      by (auto simp: filter_empty_conv dest: set_zip_leftD)
    with True vs show ?thesis by simp
  next
    case False
    with Cons vs show ?thesis by auto
  qed
qed

lemma getitem_series:
  assumes "distinct (columns df)" "length (colvals df) = length (columns df)"
    and "c \<in> set (columns df)"
  shows "\<exists>s. getitem df c = Inr (Series s) \<and> column_values df c = Some s"
  using filter_zip_distinct[OF assms] by (auto simp: getitem_def column_values_def)

lemma scan_columns_find:
  assumes "distinct (columns df)" "length (colvals df) = length (columns df)"
    and "set cs \<subseteq> set (columns df)"
  shows "scan_columns df cs = Inr (find (key_like df) cs)"
  using assms(3)
proof (induction cs)
  case Nil
  then show ?case by simp
next
  case (Cons c cs)
  then have "c \<in> set (columns df)" by simp
  from getitem_series[OF assms(1,2) this] obtain s
    where s: "getitem df c = Inr (Series s)" "column_values df c = Some s" by blast
  have "key_like df c \<longleftrightarrow> is_unique s \<and> notnull_all s"
    using s(2) by (simp add: key_like_def is_unique_def notnull_all_iff)
  with s Cons show ?case by simp
qed

text \<open>
  C3. On a table with at least one column, key inference returns the first column, in
  declared order, whose values are all non-null and pairwise distinct; when no column is
  such, it returns the first declared column, whatever its values.
\<close>

theorem detect_primary_key_first_match:
  assumes "wf_frame df" and "columns df \<noteq> []"
  shows "detect_primary_key df =
           Inr (case find (key_like df) (columns df) of
                  Some c \<Rightarrow> c | None \<Rightarrow> hd (columns df))"
proof -
  from assms(1) have "scan_columns df (columns df) = Inr (find (key_like df) (columns df))"
    by (intro scan_columns_find) (auto simp: wf_frame_def)
  with assms(2) show ?thesis
    by (cases "columns df") (auto simp: detect_primary_key_def split: option.splits)
qed

theorem detect_primary_key_first_match_witness:
  "wf_frame ex_keys \<and> columns ex_keys \<noteq> [] \<and> detect_primary_key ex_keys = Inr (py ''b'')"
  using detect_primary_key_first_match[of ex_keys]
  by (simp add: ex_keys_def wf_frame_def nrows_def py_def key_like_def column_values_def)

text \<open>
  C8. On a table with zero columns key inference returns no key: it fails with
  \<open>IndexError\<close>, an exception raised to the caller.
\<close>

theorem detect_primary_key_no_columns:
  "columns df = [] \<Longrightarrow> detect_primary_key df = Inl IndexError"
  by (simp add: detect_primary_key_def)

theorem detect_primary_key_no_columns_witness:
  "columns empty_frame = [] \<and> detect_primary_key empty_frame = Inl IndexError"
  using detect_primary_key_no_columns[of empty_frame] by (simp add: empty_frame_def)

section \<open>Properties of header cleaning\<close>

lemma case_data_ascii:
  "c < 128 \<Longrightarrow>
   case_data c = Some (ascii_letter c, [ascii_upper c], [ascii_lower c])"
  by (auto simp: case_data_def ascii_letter_def ascii_upper_def ascii_lower_def)

lemma title_loop_ascii:
  assumes "is_ascii s"
  shows "\<exists>t. title_loop prev s = Some t \<and> length t = length s \<and>
           (\<forall>i<length s. t ! i =
              (if (if i = 0 then prev else ascii_letter (s ! (i - 1)))
               then ascii_lower (s ! i) else ascii_upper (s ! i)))"
  using assms
proof (induction s arbitrary: prev)
  case Nil
  then show ?case by simp
next
  case (Cons c cs)
  then have c: "c < 128" and cs: "is_ascii cs" by (simp_all add: is_ascii_def)
  from Cons.IH[OF cs, of "ascii_letter c"] obtain t where
    t: "title_loop (ascii_letter c) cs = Some t" "length t = length cs"
       "\<forall>i<length cs. t ! i =
          (if (if i = 0 then ascii_letter c else ascii_letter (cs ! (i - 1)))
           then ascii_lower (cs ! i) else ascii_upper (cs ! i))"
    by blast
  let ?x = "if prev then ascii_lower c else ascii_upper c"
  have eq: "title_loop prev (c # cs) = Some (?x # t)"
    using t(1) by (simp add: case_data_ascii[OF c])
  have "\<forall>i<length (c # cs). (?x # t) ! i =
          (if (if i = 0 then prev else ascii_letter ((c # cs) ! (i - 1)))
           then ascii_lower ((c # cs) ! i) else ascii_upper ((c # cs) ! i))"
  proof (intro allI impI)
    fix i assume i: "i < length (c # cs)"
    show "(?x # t) ! i =
          (if (if i = 0 then prev else ascii_letter ((c # cs) ! (i - 1)))
           then ascii_lower ((c # cs) ! i) else ascii_upper ((c # cs) ! i))"
    proof (cases i)
      case 0
      then show ?thesis by simp
    next
      case (Suc j)
      with i have j: "j < length cs" by simp
      from t(3) j have "t ! j =
          (if (if j = 0 then ascii_letter c else ascii_letter (cs ! (j - 1)))
           then ascii_lower (cs ! j) else ascii_upper (cs ! j))" by blast
      with Suc show ?thesis by (cases j) simp_all
    qed
  qed
  with eq t(2) show ?case by simp
qed

lemma str_replace_ascii: "is_ascii s \<Longrightarrow> is_ascii (str_replace 95 32 s)"
  by (induction s) (auto simp: is_ascii_def str_replace_def)

lemma not_letter_32: "\<not> ascii_letter 32" "ascii_upper 32 = 32" "ascii_lower 32 = 32"
  by (simp_all add: ascii_letter_def ascii_upper_def ascii_lower_def)

lemma not_letter_95: "\<not> ascii_letter 95"
  by (simp add: ascii_letter_def)

lemma case_non_letter: "\<not> ascii_letter c \<Longrightarrow> ascii_upper c = c \<and> ascii_lower c = c"
  by (auto simp: ascii_letter_def ascii_upper_def ascii_lower_def)

lemma clean_name_ascii:
  assumes "is_ascii name"
  shows "clean_name name = Some (map (titled_char name) [0..<length name])"
proof -
  let ?r = "str_replace 95 32 name"
  have r: "is_ascii ?r" using assms by (rule str_replace_ascii)
  have len: "length ?r = length name" by (simp add: str_replace_def)
  from title_loop_ascii[OF r, of False] obtain t where
    t: "title_loop False ?r = Some t" "length t = length ?r"
       "\<forall>i<length ?r. t ! i =
          (if (if i = 0 then False else ascii_letter (?r ! (i - 1)))
           then ascii_lower (?r ! i) else ascii_upper (?r ! i))"
    by blast
  have nth_r: "?r ! i = (if name ! i = 95 then 32 else name ! i)" if "i < length name" for i
    using that by (simp add: str_replace_def)
  have "t = map (titled_char name) [0..<length name]"
  proof (rule nth_equalityI)
    show "length t = length (map (titled_char name) [0..<length name])"
      using t(2) len by simp
  next
    fix i assume "i < length t"
    with t(2) len have i: "i < length name" by simp
    from t(3) i len have ti: "t ! i =
          (if (if i = 0 then False else ascii_letter (?r ! (i - 1)))
           then ascii_lower (?r ! i) else ascii_upper (?r ! i))" by simp
    have prev: "ascii_letter (?r ! (i - 1)) = ascii_letter (name ! (i - 1))" if "0 < i"
      using that i nth_r[of "i - 1"] by (simp add: not_letter_32 not_letter_95)
    show "t ! i = map (titled_char name) [0..<length name] ! i"
    proof (cases "name ! i = 95")
      case True
      with ti i nth_r[of i] show ?thesis
        by (simp add: titled_char_def not_letter_32)
    next
      case False
      then have ri: "?r ! i = name ! i" using nth_r[OF i] by simp
      show ?thesis
      proof (cases "i = 0")
        case True
        with ti ri i False show ?thesis
          by (auto simp: titled_char_def Let_def dest: case_non_letter)
      next
        case nz: False
        then have "0 < i" by simp
        from prev[OF this] ti ri i False nz show ?thesis
          by (auto simp: titled_char_def Let_def dest: case_non_letter)
      qed
    qed
  qed
  with t(1) show ?thesis by (simp add: clean_name_def str_title_def)
qed

text \<open>
  C7 (as amended). For every ASCII column name the cleaned name has the same length;
  every underscore is a space, every letter that starts the name or follows a non-letter
  is upper-cased, every letter that follows a letter is lower-cased, and every other
  character is unchanged.
\<close>

theorem clean_name_title_case:
  assumes "is_ascii name"
  shows "\<exists>out. clean_name name = Some out \<and> length out = length name \<and>
           (\<forall>i<length name. out ! i = titled_char name i)"
  using clean_name_ascii[OF assms] by simp

theorem clean_name_title_case_witness:
  "is_ascii (py ''img_ID2x'') \<and> clean_name (py ''img_ID2x'') = Some (py ''Img Id2X'')"
proof -
  have a: "is_ascii (py ''img_ID2x'')" by (simp add: is_ascii_def py_def)
  from clean_name_title_case[OF a] obtain out where
    o: "clean_name (py ''img_ID2x'') = Some out" "length out = length (py ''img_ID2x'')"
       "\<forall>i<length (py ''img_ID2x''). out ! i = titled_char (py ''img_ID2x'') i"
    by blast
  have "out = py ''Img Id2X''"
  proof (rule nth_equalityI)
    show "length out = length (py ''Img Id2X'')" using o(2) by (simp add: py_def)
  next
    fix i assume "i < length out"
    with o(2) have i: "i < 8" by (simp add: py_def)
    then have "i \<in> {0, 1, 2, 3, 4, 5, 6, 7}" by auto
    with o(3) show "out ! i = py ''Img Id2X'' ! i"
      by (auto simp: py_def titled_char_def ascii_letter_def ascii_upper_def ascii_lower_def)
  qed
  with a o(1) show ?thesis by simp
qed

text \<open>
  C7 as stated fails: the rest of a word does not keep its case. The column name
  \<open>orderID\<close> is cleaned to \<open>Orderid\<close>, where the stated rule gives \<open>OrderID\<close>.
\<close>

theorem clean_name_lowers_rest:
  "clean_name (py ''orderID'') = Some (py ''Orderid'') \<and>
   spec_clean_name (py ''orderID'') = py ''OrderID'' \<and>
   clean_name (py ''orderID'') \<noteq> Some (spec_clean_name (py ''orderID''))"
  by (simp add: clean_name_def str_title_def str_replace_def case_data_def py_def
      spec_clean_name_def ascii_upper_def ascii_space_def)

lemma ascii_case_facts:
  assumes "c < 128"
  shows "ascii_lower c < 128" "ascii_upper c < 128"
    "ascii_letter (ascii_lower c) = ascii_letter c"
    "ascii_letter (ascii_upper c) = ascii_letter c"
    "ascii_lower (ascii_lower c) = ascii_lower c"
    "ascii_upper (ascii_upper c) = ascii_upper c"
    "c \<noteq> 95 \<Longrightarrow> ascii_lower c \<noteq> 95" "c \<noteq> 95 \<Longrightarrow> ascii_upper c \<noteq> 95"
  using assms by (auto simp: ascii_letter_def ascii_upper_def ascii_lower_def)

lemma title_loop_fixed:
  assumes "is_ascii s" and "95 \<notin> set s"
  shows "\<exists>t. title_loop prev s = Some t \<and> title_loop prev t = Some t \<and>
           is_ascii t \<and> 95 \<notin> set t"
  using assms
proof (induction s arbitrary: prev)
  case Nil
  then show ?case by (simp add: is_ascii_def)
next
  case (Cons c cs)
  then have c: "c < 128" "c \<noteq> 95" and cs: "is_ascii cs" "95 \<notin> set cs"
    by (auto simp: is_ascii_def)
  from Cons.IH[OF cs, of "ascii_letter c"] obtain t where
    t: "title_loop (ascii_letter c) cs = Some t" "title_loop (ascii_letter c) t = Some t"
       "is_ascii t" "95 \<notin> set t"
    by blast
  define x where "x = (if prev then ascii_lower c else ascii_upper c)"
  have x: "x < 128" "x \<noteq> 95" "ascii_letter x = ascii_letter c"
    using ascii_case_facts[OF c(1)] c(2) by (auto simp: x_def)
  have same: "(if prev then [ascii_lower x] else [ascii_upper x]) = [x]"
    using ascii_case_facts(5,6)[OF c(1)] by (simp add: x_def)
  have first: "title_loop prev (c # cs) = Some (x # t)"
    using t(1) by (simp add: case_data_ascii[OF c(1)] x_def)
  have again: "title_loop prev (x # t) = Some (x # t)"
    using t(2) x(3) same by (simp add: case_data_ascii[OF x(1)] del: if_split)
  from first again x(1,2) t(3,4) show ?case by (simp add: is_ascii_def)
qed

lemma str_replace_no_underscore: "95 \<notin> set (str_replace 95 32 s)"
  by (induction s) (auto simp: str_replace_def)

lemma str_replace_absent: "95 \<notin> set s \<Longrightarrow> str_replace 95 32 s = s"
  by (induction s) (auto simp: str_replace_def)

lemma clean_name_fixed:
  assumes "is_ascii name"
  shows "\<exists>out. clean_name name = Some out \<and> clean_name out = Some out \<and> is_ascii out"
proof -
  from title_loop_fixed[OF str_replace_ascii[OF assms] str_replace_no_underscore, of False]
  obtain t where t: "title_loop False (str_replace 95 32 name) = Some t"
    "title_loop False t = Some t" "is_ascii t" "95 \<notin> set t"
    by blast
  then show ?thesis
    by (simp add: clean_name_def str_title_def str_replace_absent)
qed

lemma clean_names_fixed:
  assumes "list_all is_ascii cols"
  shows "\<exists>names. those (map clean_name cols) = Some names \<and>
           those (map clean_name names) = Some names"
  using assms
proof (induction cols)
  case Nil
  then show ?case by simp
next
  case (Cons col cols)
  then obtain names where n: "those (map clean_name cols) = Some names"
    "those (map clean_name names) = Some names" by auto
  from Cons.prems clean_name_fixed[of col] obtain out where
    o: "clean_name col = Some out" "clean_name out = Some out" by auto
  from n o show ?case by simp
qed

text \<open>
  C9 (as amended). On a table whose column names are ASCII, cleaning the headers twice
  gives the column names that cleaning them once gives.
\<close>

theorem clean_column_headers_idempotent_ascii:
  assumes "list_all is_ascii (columns (h df))"
  shows "headers_after (clean_column_headers h df) \<noteq> None \<and>
         headers_after (clean_twice h df) = headers_after (clean_column_headers h df)"
proof -
  from clean_names_fixed[OF assms] obtain names where
    n: "those (map clean_name (columns (h df))) = Some names"
       "those (map clean_name names) = Some names" by blast
  then show ?thesis
    by (simp add: clean_twice_def clean_column_headers_def headers_after_def)
qed

theorem clean_column_headers_idempotent_ascii_witness:
  "list_all is_ascii (columns (ex_store 0)) \<and>
   headers_after (clean_column_headers ex_store 0) = Some [py ''Order Id'', py ''File''] \<and>
   headers_after (clean_twice ex_store 0) = Some [py ''Order Id'', py ''File'']"
proof -
  have a: "list_all is_ascii (columns (ex_store 0))"
    by (simp add: ex_store_def ex_orders_def is_ascii_def py_def)
  have once: "headers_after (clean_column_headers ex_store 0)
              = Some [py ''Order Id'', py ''File'']"
    by (simp add: headers_after_def clean_column_headers_def ex_store_def ex_orders_def
        clean_name_def str_title_def str_replace_def case_data_def py_def)
  from clean_column_headers_idempotent_ascii[of ex_store 0] once a show ?thesis by simp
qed

text \<open>
  C9 as stated fails outside ASCII. The column name \<open>a\<close> U+0130 \<open>b\<close> is cleaned to
  \<open>A i\<close> U+0307 \<open>b\<close>; cleaning that again gives \<open>A i\<close> U+0307 \<open>B\<close>, because the
  combining dot is not cased and the letter after it starts a new word.
\<close>

theorem clean_column_headers_not_idempotent:
  "headers_after (clean_column_headers ex_dotted_store 0) = Some [[65, 105, 775, 98]] \<and>
   headers_after (clean_twice ex_dotted_store 0) = Some [[65, 105, 775, 66]]"
  by (simp add: headers_after_def clean_twice_def clean_column_headers_def
      ex_dotted_store_def ex_dotted_def clean_name_def str_title_def str_replace_def
      case_data_def)

lemma those_map_Some:
  assumes "those (map f xs) = Some ys"
  shows "ys = map (\<lambda>x. case f x of None \<Rightarrow> g x | Some y \<Rightarrow> y) xs"
  using assms
proof (induction xs arbitrary: ys)
  case Nil
  then show ?case by simp
next
  case (Cons x xs)
  then show ?case by (auto split: option.splits)
qed

lemma clean_names_with:
  assumes "runtime_title title" and "those (map clean_name cols) = Some names"
  shows "names = map (\<lambda>col. title (str_replace 95 32 col)) cols"
proof -
  have same: "(case clean_name col of None \<Rightarrow> title (str_replace 95 32 col) | Some y \<Rightarrow> y)
              = title (str_replace 95 32 col)" for col
    using assms(1) unfolding runtime_title_def clean_name_def
    by (cases "str_title (str_replace 95 32 col)")
       (auto dest: spec[of _ "str_replace 95 32 col"])
  from those_map_Some[OF assms(2), of "\<lambda>col. title (str_replace 95 32 col)"]
  show ?thesis by (simp add: same)
qed

text \<open>
  C2 (as amended). The header normalizer changes the table it is given in place and
  returns that same table, whatever the table: the reference returned is the reference
  passed, the object behind it has the cleaned column names and the row data it had, in
  the same order, and every other object of the store is untouched. Where the names are
  in the part of the Unicode database given above, this is the result of
  \<open>clean_column_headers\<close>.
\<close>

theorem clean_column_headers_in_place:
  assumes "runtime_title title" and "clean_column_headers_with title h df = (h', r)"
  shows "r = df \<and> colvals (h' df) = colvals (h df) \<and>
         columns (h' df) = map (\<lambda>col. title (str_replace 95 32 col)) (columns (h df)) \<and>
         (\<forall>a. a \<noteq> df \<longrightarrow> h' a = h a) \<and>
         (case clean_column_headers h df of None \<Rightarrow> True | Some res \<Rightarrow> res = (h', r))"
proof -
  from assms(2) have r: "r = df"
    and h': "h' = h(df := (h df)\<lparr>columns :=
               map (\<lambda>col. title (str_replace 95 32 col)) (columns (h df))\<rparr>)"
    by (auto simp: clean_column_headers_with_def)
  have "res = (h', r)" if "clean_column_headers h df = Some res" for res
  proof -
    from that obtain names where names: "those (map clean_name (columns (h df))) = Some names"
      and res: "res = (h(df := (h df)\<lparr>columns := names\<rparr>), df)"
      by (auto simp: clean_column_headers_def split: option.splits)
    from clean_names_with[OF assms(1) names] res r h' show ?thesis by simp
  qed
  with r h' show ?thesis by (auto split: option.splits)
qed

theorem clean_column_headers_in_place_witness:
  "runtime_title table_title \<and>
   clean_column_headers_with table_title ex_store 0
     = (ex_store(0 := ex_orders\<lparr>columns := [py ''Order Id'', py ''File'']\<rparr>), 0) \<and>
   clean_column_headers ex_store 0
     = Some (ex_store(0 := ex_orders\<lparr>columns := [py ''Order Id'', py ''File'']\<rparr>), 0) \<and>
   colvals ((ex_store(0 := ex_orders\<lparr>columns := [py ''Order Id'', py ''File'']\<rparr>)) 0)
     = colvals (ex_store 0)"
proof -
  have rt: "runtime_title table_title"
    by (simp add: runtime_title_def table_title_def split: option.splits)
  have run: "clean_column_headers_with table_title ex_store 0
     = (ex_store(0 := ex_orders\<lparr>columns := [py ''Order Id'', py ''File'']\<rparr>), 0)"
    by (simp add: clean_column_headers_with_def table_title_def ex_store_def ex_orders_def
        str_title_def str_replace_def case_data_def py_def)
  have old: "clean_column_headers ex_store 0 \<noteq> None"
    by (simp add: clean_column_headers_def ex_store_def ex_orders_def
        clean_name_def str_title_def str_replace_def case_data_def py_def)
  from clean_column_headers_in_place[OF rt run] rt run old show ?thesis by auto
qed

text \<open>
  C2 as stated fails: the call returns the reference it was given, not a new table, and
  the column names of the table behind that reference are changed by the call.
\<close>

theorem clean_column_headers_mutates_input:
  "ex_store 0 = ex_orders \<and>
   clean_column_headers ex_store 0 =
     Some (ex_store(0 := ex_orders\<lparr>columns := [py ''Order Id'', py ''File'']\<rparr>), 0) \<and>
   columns ex_orders \<noteq> [py ''Order Id'', py ''File'']"
  by (simp add: clean_column_headers_def ex_store_def ex_orders_def
      clean_name_def str_title_def str_replace_def case_data_def py_def)

section \<open>Properties of the matcher\<close>

subsection \<open>Selecting rows of a merged table\<close>

lemma select_map:
  "map snd (filter fst (zip (map P ix) (map f ix))) = map f (filter P ix)"
  by (induction ix) auto

lemma select_rows_merge_frame:
  "select_rows (merge_frame l r lk rk lkeys rkeys ix) (map P ix)
   = merge_frame l r lk rk lkeys rkeys (filter P ix)"
  by (simp add: select_rows_def merge_frame_def Let_def select_map)

lemma filter_zip_absent:
  "m \<notin> set A \<Longrightarrow> filter (\<lambda>p. fst p = m) (zip A C) = []"
  by (auto simp: filter_empty_conv dest: set_zip_leftD)

lemma filter_zip_shorter:
  "m \<notin> set A \<Longrightarrow> length C < length A \<Longrightarrow>
   filter (\<lambda>p. fst p = m) (zip (A @ [m]) (C @ [x])) = []"
proof (induction A arbitrary: C)
  case Nil
  then show ?case by simp
next
  case (Cons a A)
  from Cons.prems(1) have am: "a \<noteq> m" and mA: "m \<notin> set A" by auto
  show ?case
  proof (cases C)
    case Nil
    with am show ?thesis by simp
  next
    case (Cons c C')
    with Cons.prems(2) have "length C' < length A" by simp
    from Cons.IH[OF mA this] am Cons show ?thesis by simp
  qed
qed

lemma zip_last_label:
  assumes "m \<notin> set A" and "length C \<le> length A"
  shows "map snd (filter (\<lambda>p. fst p = m) (zip (A @ [m]) (C @ [x])))
         = (if length C = length A then [x] else [])"
proof (cases "length C = length A")
  case True
  then have "zip (A @ [m]) (C @ [x]) = zip A C @ [(m, x)]" by simp
  with True filter_zip_absent[OF assms(1), of C] show ?thesis by simp
next
  case False
  with assms(2) have "length C < length A" by simp
  from filter_zip_shorter[OF assms(1) this] False show ?thesis by simp
qed

lemma suffix_not_merge: "c @ py ''_x'' \<noteq> py ''_merge''" "c @ py ''_y'' \<noteq> py ''_merge''"
  by (auto simp: py_def append_eq_Cons_conv)

lemma with_suffix_not_merge:
  assumes "py ''_merge'' \<notin> set labels"
  shows "py ''_merge'' \<notin> set (with_suffix others (py ''_x'') labels)"
    and "py ''_merge'' \<notin> set (with_suffix others (py ''_y'') labels)"
proof -
  show "py ''_merge'' \<notin> set (with_suffix others (py ''_x'') labels)"
  proof
    assume "py ''_merge'' \<in> set (with_suffix others (py ''_x'') labels)"
    then obtain c where "c \<in> set labels"
      and "py ''_merge'' = (if c \<in> set others then c @ py ''_x'' else c)"
      by (auto simp: with_suffix_def)
    with assms suffix_not_merge(1)[of c] show False by (cases "c \<in> set others") auto
  qed
  show "py ''_merge'' \<notin> set (with_suffix others (py ''_y'') labels)"
  proof
    assume "py ''_merge'' \<in> set (with_suffix others (py ''_y'') labels)"
    then obtain c where "c \<in> set labels"
      and "py ''_merge'' = (if c \<in> set others then c @ py ''_y'' else c)"
      by (auto simp: with_suffix_def)
    with assms suffix_not_merge(2)[of c] show False by (cases "c \<in> set others") auto
  qed
qed

lemma side_columns:
  "set (columns (left_side l lk rk lkeys)) \<subseteq> set (columns l)"
  "set (columns (right_side r lk rk lkeys)) \<subseteq> set (columns r)"
  by (auto simp: left_side_def right_side_def drop_label_def)

lemma getitem_merge_frame:
  assumes "py ''_merge'' \<notin> set (columns l)" "py ''_merge'' \<notin> set (columns r)"
    and "getitem (merge_frame l r lk rk lkeys rkeys ix) (py ''_merge'') = Inr (Series s)"
  shows "s = map indicator ix"
proof -
  define l' where "l' = left_side l lk rk lkeys"
  define r' where "r' = right_side r lk rk lkeys"
  define A where "A = with_suffix (columns r') (py ''_x'') (columns l') @
                     with_suffix (columns l') (py ''_y'') (columns r')"
  define C where "C = map (\<lambda>f. map f ix)
     (map (\<lambda>(c, s). if lk = rk \<and> c = lk then key_cell lkeys rkeys else left_cell s)
        (zip (columns l') (colvals l')) @
      map (\<lambda>(c, s). if lk = rk \<and> c = rk then key_cell lkeys rkeys else right_cell s)
        (zip (columns r') (colvals r')))"
  have nl: "py ''_merge'' \<notin> set (columns l')" and nr: "py ''_merge'' \<notin> set (columns r')"
    using assms(1,2) side_columns[of l lk rk lkeys] side_columns(2)[of r lk rk lkeys]
    by (auto simp: l'_def r'_def)
  have notin: "py ''_merge'' \<notin> set A"
    using with_suffix_not_merge(1)[OF nl] with_suffix_not_merge(2)[OF nr] by (simp add: A_def)
  have len: "length C \<le> length A"
    by (simp add: C_def A_def with_suffix_def)
  have cols: "columns (merge_frame l r lk rk lkeys rkeys ix) = A @ [py ''_merge'']"
    by (simp add: merge_frame_def Let_def merged_columns_def A_def l'_def r'_def)
  have vals: "colvals (merge_frame l r lk rk lkeys rkeys ix) = C @ [map indicator ix]"
    by (simp add: merge_frame_def Let_def merged_cells_def C_def l'_def r'_def)
  from assms(3) zip_last_label[OF notin len, of "map indicator ix"] show ?thesis
    by (simp add: getitem_def cols vals split: if_splits)
qed

lemma key_values_Inr:
  "key_values df label = Inr s \<Longrightarrow> getitem df label = Inr (Series s)"
  by (auto simp: key_values_def split: sum.splits selection.splits)

lemma pd_merge_Inr:
  assumes "pd_merge order l r lk rk = Inr merged"
  shows "\<exists>lkeys rkeys. key_values l lk = Inr lkeys \<and> key_values r rk = Inr rkeys \<and>
           py ''_merge'' \<notin> set (columns l) \<and> py ''_merge'' \<notin> set (columns r) \<and>
           merged = merge_frame l r lk rk lkeys rkeys (order (join_indexers lkeys rkeys))"
  using assms
  by (auto simp: pd_merge_def Let_def reserved_labels_def split: sum.splits if_splits)

lemma match_data_Inr:
  assumes "match_data order l r lk rk = Inr (m, u)"
  shows "\<exists>lkeys rkeys. key_values l lk = Inr lkeys \<and> key_values r rk = Inr rkeys \<and>
           py ''_merge'' \<notin> set (columns l) \<and> py ''_merge'' \<notin> set (columns r) \<and>
           m = merge_frame l r lk rk lkeys rkeys (matched_pairs order lkeys rkeys) \<and>
           u = merge_frame l r lk rk lkeys rkeys (unmatched_pairs order lkeys rkeys)"
proof -
  from assms obtain merged where merged: "pd_merge order l r lk rk = Inr merged"
    by (auto simp: match_data_def split: sum.splits)
  from pd_merge_Inr[OF this] obtain lkeys rkeys where
    k: "key_values l lk = Inr lkeys" "key_values r rk = Inr rkeys"
       "py ''_merge'' \<notin> set (columns l)" "py ''_merge'' \<notin> set (columns r)"
       "merged = merge_frame l r lk rk lkeys rkeys (order (join_indexers lkeys rkeys))"
    by blast
  from assms merged obtain ind where
    ind: "getitem merged (py ''_merge'') = Inr (Series ind)"
    and res: "m = select_rows merged (map (\<lambda>c. c = both) ind)"
             "u = select_rows merged (map (\<lambda>c. c \<noteq> both) ind)"
    by (auto simp: match_data_def split: sum.splits selection.splits)
  have "ind = map indicator (order (join_indexers lkeys rkeys))"
    using getitem_merge_frame[OF k(3,4)] ind k(5) by blast
  then have "m = merge_frame l r lk rk lkeys rkeys (matched_pairs order lkeys rkeys)"
    and "u = merge_frame l r lk rk lkeys rkeys (unmatched_pairs order lkeys rkeys)"
    using res k(5)
      select_rows_merge_frame[of l r lk rk lkeys rkeys "order (join_indexers lkeys rkeys)"]
    by (simp_all add: matched_pairs_def unmatched_pairs_def comp_def)
  with k show ?thesis by blast
qed

lemma nrows_merge_frame: "nrows (merge_frame l r lk rk lkeys rkeys ix) = length ix"
proof -
  obtain f fs where
    "merged_cells (left_side l lk rk lkeys) (right_side r lk rk lkeys) lk rk lkeys rkeys = f # fs"
    by (cases "merged_cells (left_side l lk rk lkeys) (right_side r lk rk lkeys) lk rk lkeys rkeys")
       (auto simp: merged_cells_def)
  then show ?thesis by (simp add: nrows_def merge_frame_def Let_def)
qed


subsection \<open>Counting the index pairs\<close>

lemma indicator_left_only: "indicator (Some i, None) \<noteq> both"
  by (simp add: both_def py_def)

lemma indicator_right_only: "indicator (None, Some j) \<noteq> both"
  by (simp add: both_def py_def)

lemma left_block_fst: "p \<in> set (left_block lkeys rkeys i) \<Longrightarrow> fst p = Some i"
  by (auto simp: left_block_def split: list.splits)

lemma left_block_both:
  "filter (\<lambda>p. indicator p = both) (left_block lkeys rkeys i)
   = map (\<lambda>j. (Some i, Some j)) (matches rkeys (lkeys ! i))"
proof (cases "matches rkeys (lkeys ! i)")
  case Nil
  then show ?thesis by (simp add: left_block_def both_def py_def)
next
  case (Cons j js)
  then have "left_block lkeys rkeys i = map (\<lambda>j. (Some i, Some j)) (matches rkeys (lkeys ! i))"
    by (simp add: left_block_def)
  then show ?thesis by (simp add: filter_map comp_def)
qed

lemma left_block_not_both:
  "filter (\<lambda>p. indicator p \<noteq> both) (left_block lkeys rkeys i)
   = (if matches rkeys (lkeys ! i) = [] then [(Some i, None)] else [])"
proof (cases "matches rkeys (lkeys ! i)")
  case Nil
  then show ?thesis by (simp add: left_block_def both_def py_def)
next
  case (Cons j js)
  then have "left_block lkeys rkeys i = map (\<lambda>j. (Some i, Some j)) (matches rkeys (lkeys ! i))"
    by (simp add: left_block_def)
  with Cons show ?thesis by (simp add: filter_map comp_def)
qed

lemma matched_base_eq:
  "filter (\<lambda>p. indicator p = both) (join_indexers lkeys rkeys)
   = concat (map (\<lambda>i. map (\<lambda>j. (Some i, Some j)) (matches rkeys (lkeys ! i)))
               [0..<length lkeys])"
proof -
  have "filter (\<lambda>p. indicator p = both)
          (map (\<lambda>j. (None, Some j)) (filter (\<lambda>j. rkeys ! j \<notin> set lkeys) [0..<length rkeys])) = []"
    by (simp add: filter_empty_conv both_def py_def)
  then show ?thesis
    by (simp add: join_indexers_def filter_concat comp_def left_block_both)
qed

lemma unmatched_base_eq:
  "filter (\<lambda>p. indicator p \<noteq> both) (join_indexers lkeys rkeys)
   = concat (map (\<lambda>i. if matches rkeys (lkeys ! i) = [] then [(Some i, None)] else [])
               [0..<length lkeys]) @
     map (\<lambda>j. (None, Some j)) (filter (\<lambda>j. rkeys ! j \<notin> set lkeys) [0..<length rkeys])"
proof -
  have "filter (\<lambda>p. indicator p \<noteq> both)
          (map (\<lambda>j. (None, Some j)) (filter (\<lambda>j. rkeys ! j \<notin> set lkeys) [0..<length rkeys]))
        = map (\<lambda>j. (None, Some j)) (filter (\<lambda>j. rkeys ! j \<notin> set lkeys) [0..<length rkeys])"
    by (simp add: filter_id_conv both_def py_def)
  then show ?thesis
    by (simp add: join_indexers_def filter_concat comp_def
        left_block_not_both)
qed


lemma matches_set: "set (matches keys k) = {j. j < length keys \<and> keys ! j = k}"
  by (auto simp: matches_def)

lemma matches_empty: "matches keys k = [] \<longleftrightarrow> k \<notin> set keys"
  using matches_set[of keys k] by (auto simp: in_set_conv_nth simp flip: set_empty)








lemma distinct_blocks:
  assumes "distinct xs" and "\<And>x. x \<in> set xs \<Longrightarrow> distinct (f x)"
    and "\<And>x p. x \<in> set xs \<Longrightarrow> p \<in> set (f x) \<Longrightarrow> fst p = Some x"
  shows "distinct (concat (map f xs))"
  using assms
proof (induction xs)
  case Nil
  then show ?case by simp
next
  case (Cons x xs)
  have "set (f x) \<inter> set (concat (map f xs)) = {}"
  proof (rule ccontr)
    assume "set (f x) \<inter> set (concat (map f xs)) \<noteq> {}"
    then obtain p y where "p \<in> set (f x)" "y \<in> set xs" "p \<in> set (f y)" by auto
    with Cons.prems(3)[of x p] Cons.prems(3)[of y p] Cons.prems(1) show False by auto
  qed
  with Cons show ?case by simp
qed

lemma matched_base_distinct: "distinct (filter (\<lambda>p. indicator p = both) (join_indexers lkeys rkeys))"
  unfolding matched_base_eq
  by (rule distinct_blocks) (auto simp: distinct_map matches_def inj_on_def)

lemma matched_base_set:
  "set (filter (\<lambda>p. indicator p = both) (join_indexers lkeys rkeys))
   = {(Some i, Some j) | i j. i < length lkeys \<and> j < length rkeys \<and> lkeys ! i = rkeys ! j}"
  by (auto simp: matched_base_eq matches_set)

subsection \<open>Any arrangement of the rows\<close>


lemma matched_pairs_mset:
  assumes "arrangement order"
  shows "mset (matched_pairs order lkeys rkeys)
         = mset (filter (\<lambda>p. indicator p = both) (join_indexers lkeys rkeys))"
  using assms by (simp add: matched_pairs_def arrangement_def)






lemma matched_pairs_distinct:
  assumes "arrangement order"
  shows "distinct (matched_pairs order lkeys rkeys)"
  using mset_eq_imp_distinct_iff[OF matched_pairs_mset[OF assms]] matched_base_distinct
  by blast

lemma matched_pairs_set:
  assumes "arrangement order"
  shows "set (matched_pairs order lkeys rkeys)
         = {(Some i, Some j) | i j. i < length lkeys \<and> j < length rkeys \<and> lkeys ! i = rkeys ! j}"
  using mset_eq_setD[OF matched_pairs_mset[OF assms]] matched_base_set by simp



lemma matched_pairs_card:
  assumes "arrangement order"
  shows "length (matched_pairs order lkeys rkeys)
         = card {(i, j). i < length lkeys \<and> j < length rkeys \<and> lkeys ! i = rkeys ! j}"
proof -
  let ?S = "{(i, j). i < length lkeys \<and> j < length rkeys \<and> lkeys ! i = rkeys ! j}"
  have img: "set (matched_pairs order lkeys rkeys) = (\<lambda>(i, j). (Some i, Some j)) ` ?S"
    by (auto simp: matched_pairs_set[OF assms])
  have "inj_on (\<lambda>(i, j). (Some i, Some j)) ?S" by (auto simp: inj_on_def)
  then have "card ((\<lambda>(i, j). (Some i, Some j)) ` ?S) = card ?S" by (rule card_image)
  with img distinct_card[OF matched_pairs_distinct[OF assms], of lkeys rkeys]
  show ?thesis by simp
qed

subsection \<open>What a row of the result holds\<close>

lemma wf_key_column:
  assumes "wf_frame df" and "key_values df label = Inr keys"
    and "(c, s) \<in> set (zip (columns df) (colvals df))"
  shows "length s = length keys" and "c = label \<Longrightarrow> s = keys"
proof -
  from assms(2) have g: "getitem df label = Inr (Series keys)" by (rule key_values_Inr)
  then have one: "map snd (filter (\<lambda>p. fst p = label) (zip (columns df) (colvals df))) = [keys]"
    by (auto simp: getitem_def split: list.splits)
  then have "keys \<in> set (map snd (filter (\<lambda>p. fst p = label) (zip (columns df) (colvals df))))"
    by simp
  then have "keys \<in> set (colvals df)" by (auto dest: set_zip_rightD)
  with assms(1) have lk: "length keys = nrows df" by (auto simp: wf_frame_def list_all_iff)
  from assms(3) have "s \<in> set (colvals df)" by (auto dest: set_zip_rightD)
  with assms(1) have "length s = nrows df" by (auto simp: wf_frame_def list_all_iff)
  with lk show "length s = length keys" by simp
  show "s = keys" if "c = label"
  proof -
    from that assms(3)
    have "s \<in> set (map snd (filter (\<lambda>p. fst p = label) (zip (columns df) (colvals df))))"
      by force
    with one show ?thesis by simp
  qed
qed

lemma row_cells_map:
  assumes "wf_frame df"
  shows "row_cells df n = map (\<lambda>(c, s). (c, s ! n)) (zip (columns df) (colvals df))"
proof -
  have "zip (columns df) (map (\<lambda>s. s ! n) (colvals df))
        = map (\<lambda>(c, s). (c, s ! n)) (zip (columns df) (colvals df))"
    by (simp add: zip_map2)
  then show ?thesis by (simp add: row_cells_def)
qed

lemma zip_labelled:
  assumes "length cs = length ss"
  shows "zip (map g cs @ A) (map (\<lambda>x. h (fst x) (snd x)) (zip cs ss) @ B)
         = map (\<lambda>x. (g (fst x), h (fst x) (snd x))) (zip cs ss) @ zip A B"
  using assms by (induction cs ss rule: list_induct2) auto

lemma row_cells_merge_frame:
  assumes "wf_frame l'" and "wf_frame r'" and "n < length ix"
    and "l' = left_side l lk rk lkeys" and "r' = right_side r lk rk lkeys"
  shows "row_cells (merge_frame l r lk rk lkeys rkeys ix) n
         = map (\<lambda>(c, s). (if c \<in> set (columns r') then c @ py ''_x'' else c,
                          (if lk = rk \<and> c = lk then key_cell lkeys rkeys else left_cell s) (ix ! n)))
             (zip (columns l') (colvals l')) @
           map (\<lambda>(c, s). (if c \<in> set (columns l') then c @ py ''_y'' else c,
                          (if lk = rk \<and> c = rk then key_cell lkeys rkeys else right_cell s) (ix ! n)))
             (zip (columns r') (colvals r')) @
           [(py ''_merge'', indicator (ix ! n))]"
proof -
  have ll: "length (columns l') = length (colvals l')"
    and lr: "length (columns r') = length (colvals r')"
    using assms(1,2) by (simp_all add: wf_frame_def)
  have "row_cells (merge_frame l r lk rk lkeys rkeys ix) n
        = zip (map (\<lambda>c. if c \<in> set (columns r') then c @ py ''_x'' else c) (columns l') @
               map (\<lambda>c. if c \<in> set (columns l') then c @ py ''_y'' else c) (columns r') @
               [py ''_merge''])
              (map (\<lambda>x. (if lk = rk \<and> fst x = lk then key_cell lkeys rkeys
                          else left_cell (snd x)) (ix ! n)) (zip (columns l') (colvals l')) @
               map (\<lambda>x. (if lk = rk \<and> fst x = rk then key_cell lkeys rkeys
                          else right_cell (snd x)) (ix ! n)) (zip (columns r') (colvals r')) @
               [indicator (ix ! n)])"
    using assms(3)
    by (simp add: row_cells_def merge_frame_def Let_def merged_columns_def merged_cells_def
        with_suffix_def assms(4,5) comp_def case_prod_beta)
  also have "\<dots> = map (\<lambda>x. (if fst x \<in> set (columns r') then fst x @ py ''_x'' else fst x,
                          (if lk = rk \<and> fst x = lk then key_cell lkeys rkeys
                           else left_cell (snd x)) (ix ! n)))
                     (zip (columns l') (colvals l')) @
                   map (\<lambda>x. (if fst x \<in> set (columns l') then fst x @ py ''_y'' else fst x,
                          (if lk = rk \<and> fst x = rk then key_cell lkeys rkeys
                           else right_cell (snd x)) (ix ! n)))
                     (zip (columns r') (colvals r')) @
                   [(py ''_merge'', indicator (ix ! n))]"
    using zip_labelled[OF ll, where g = "\<lambda>c. if c \<in> set (columns r') then c @ py ''_x'' else c"
        and h = "\<lambda>c s. (if lk = rk \<and> c = lk then key_cell lkeys rkeys else left_cell s) (ix ! n)"]
      zip_labelled[OF lr, where g = "\<lambda>c. if c \<in> set (columns l') then c @ py ''_y'' else c"
        and h = "\<lambda>c s. (if lk = rk \<and> c = rk then key_cell lkeys rkeys else right_cell s) (ix ! n)"
        and A = "[py ''_merge'']" and B = "[indicator (ix ! n)]"]
    by simp
  finally show ?thesis by (simp add: case_prod_beta)
qed

lemma zip_drop_label:
  assumes "length cs = length ss"
  shows "zip (filter (\<lambda>c. c \<noteq> x) cs) (map snd (filter (\<lambda>p. fst p \<noteq> x) (zip cs ss)))
         = filter (\<lambda>p. fst p \<noteq> x) (zip cs ss)"
    and "length (map snd (filter (\<lambda>p. fst p \<noteq> x) (zip cs ss)))
         = length (filter (\<lambda>c. c \<noteq> x) cs)"
  using assms by (induction cs ss rule: list_induct2) auto

lemma wf_drop_label:
  assumes "wf_frame df"
  shows "wf_frame (drop_label df label)"
proof -
  from assms have len: "length (columns df) = length (colvals df)"
    and rows: "\<And>s. s \<in> set (colvals df) \<Longrightarrow> length s = nrows df"
    by (auto simp: wf_frame_def list_all_iff)
  have sub: "set (colvals (drop_label df label)) \<subseteq> set (colvals df)"
    by (auto simp: drop_label_def dest: set_zip_rightD)
  have same: "length s = nrows (drop_label df label)"
    if "s \<in> set (colvals (drop_label df label))" for s
  proof (cases "colvals (drop_label df label)")
    case Nil
    with that show ?thesis by simp
  next
    case (Cons t ts)
    then have "t \<in> set (colvals df)" using sub by auto
    with rows that sub Cons show ?thesis by (auto simp: nrows_def)
  qed
  from assms zip_drop_label(2)[OF len, of label] same show ?thesis
    by (auto simp: wf_frame_def drop_label_def list_all_iff)
qed

lemma wf_sides:
  assumes "wf_frame l" and "wf_frame r"
  shows "wf_frame (left_side l lk rk lkeys)" and "wf_frame (right_side r lk rk lkeys)"
  using assms wf_drop_label by (auto simp: left_side_def right_side_def)

lemma key_in_zip:
  assumes "key_values df label = Inr keys"
  shows "(label, keys) \<in> set (zip (columns df) (colvals df))"
proof -
  from key_values_Inr[OF assms]
  have "map snd (filter (\<lambda>p. fst p = label) (zip (columns df) (colvals df))) = [keys]"
    by (auto simp: getitem_def split: list.splits)
  then have "keys \<in> snd ` set (filter (\<lambda>p. fst p = label) (zip (columns df) (colvals df)))"
    by (metis list.set_intros(1) set_map)
  then show ?thesis by auto
qed

lemma holds_left:
  assumes "wf_frame l" and "wf_frame r" and "key_values l lk = Inr lkeys"
    and "n < length ix" and "fst (ix ! n) = Some i" and "i < length lkeys"
  shows "holds_row (py ''_x'') (merge_frame l r lk rk lkeys rkeys ix) n l i"
proof -
  define r' where "r' = right_side r lk rk lkeys"
  from assms(6) have l': "l = left_side l lk rk lkeys" by (auto simp: left_side_def)
  have wr: "wf_frame r'" using wf_sides(2)[OF assms(1,2)] by (simp add: r'_def)
  note cells = row_cells_merge_frame[OF assms(1) wr assms(4) l' r'_def, of rkeys]
  have "(c, s ! i) \<in> set (row_cells (merge_frame l r lk rk lkeys rkeys ix) n) \<or>
        (c @ py ''_x'', s ! i) \<in> set (row_cells (merge_frame l r lk rk lkeys rkeys ix) n)"
    if cs: "(c, s) \<in> set (zip (columns l) (colvals l))" for c s
  proof -
    have len: "length s = length lkeys" by (rule wf_key_column(1)[OF assms(1,3) cs])
    have "(if lk = rk \<and> c = lk then key_cell lkeys rkeys else left_cell s) (ix ! n) = s ! i"
      using assms(5,6) len wf_key_column(2)[OF assms(1,3) cs]
      by (auto simp: key_cell_def left_cell_def cell_at_def)
    then have "(if c \<in> set (columns r') then c @ py ''_x'' else c, s ! i)
               \<in> set (row_cells (merge_frame l r lk rk lkeys rkeys ix) n)"
      using cs unfolding cells by force
    then show ?thesis by (auto split: if_splits)
  qed
  then show ?thesis
    by (auto simp: holds_row_def row_cells_map[OF assms(1)] list_all_iff)
qed

lemma holds_right:
  assumes "wf_frame l" and "wf_frame r"
    and "key_values l lk = Inr lkeys" and "key_values r rk = Inr rkeys"
    and "n < length ix" and "snd (ix ! n) = Some j" and "j < length rkeys"
    and valid: "\<And>i. fst (ix ! n) = Some i \<Longrightarrow> i < length lkeys \<and> lkeys ! i = rkeys ! j"
  shows "holds_row (py ''_y'') (merge_frame l r lk rk lkeys rkeys ix) n r j"
proof -
  define l' where "l' = left_side l lk rk lkeys"
  define r' where "r' = right_side r lk rk lkeys"
  define m where "m = merge_frame l r lk rk lkeys rkeys ix"
  have wl: "wf_frame l'" and wr: "wf_frame r'"
    using wf_sides[OF assms(1,2)] by (simp_all add: l'_def r'_def)
  note cells = row_cells_merge_frame[OF wl wr assms(5) l'_def r'_def, of rkeys, folded m_def]
  have key: "key_cell lkeys rkeys (ix ! n) = rkeys ! j"
    using assms(6,7) valid by (cases "fst (ix ! n)") (auto simp: key_cell_def cell_at_def)
  have right: "(if c \<in> set (columns l') then c @ py ''_y'' else c, s ! j) \<in> set (row_cells m n)"
    if cs: "(c, s) \<in> set (zip (columns r') (colvals r'))"
      and orig: "(c, s) \<in> set (zip (columns r) (colvals r))" for c s
  proof -
    have len: "length s = length rkeys" by (rule wf_key_column(1)[OF assms(2,4) orig])
    have "(if lk = rk \<and> c = rk then key_cell lkeys rkeys else right_cell s) (ix ! n) = s ! j"
      using assms(6,7) len wf_key_column(2)[OF assms(2,4) orig] key
      by (auto simp: right_cell_def cell_at_def)
    then show ?thesis using cs unfolding cells by force
  qed
  have "(c, s ! j) \<in> set (row_cells m n) \<or> (c @ py ''_y'', s ! j) \<in> set (row_cells m n)"
    if orig: "(c, s) \<in> set (zip (columns r) (colvals r))" for c s
  proof (cases "lk = rk \<and> 0 < length lkeys")
    case False
    then have "r' = r" by (auto simp: r'_def right_side_def)
    with right[of c s] orig show ?thesis by (auto split: if_splits)
  next
    case True
    then have r'd: "r' = drop_label r rk" and l'l: "l' = l"
      by (auto simp: r'_def right_side_def l'_def left_side_def)
    have lenr: "length (columns r) = length (colvals r)"
      using assms(2) by (simp add: wf_frame_def)
    have zr: "zip (columns r') (colvals r') = filter (\<lambda>p. fst p \<noteq> rk) (zip (columns r) (colvals r))"
      using zip_drop_label(1)[OF lenr, of rk] by (simp add: r'd drop_label_def)
    show ?thesis
    proof (cases "c = rk")
      case False
      with orig zr have "(c, s) \<in> set (zip (columns r') (colvals r'))" by simp
      from right[OF this orig] show ?thesis by (auto split: if_splits)
    next
      case c: True
      have s: "s = rkeys" by (rule wf_key_column(2)[OF assms(2,4) orig c])
      have "rk \<notin> set (columns r')" by (simp add: r'd drop_label_def)
      with True have "lk \<notin> set (columns r')" by simp
      moreover have "(lk, lkeys) \<in> set (zip (columns l') (colvals l'))"
        using key_in_zip[OF assms(3)] l'l by simp
      ultimately have "(lk, key_cell lkeys rkeys (ix ! n)) \<in> set (row_cells m n)"
        using True unfolding cells by force
      with key s c True show ?thesis by simp
    qed
  qed
  then show ?thesis
    by (auto simp: holds_row_def row_cells_map[OF assms(2)] list_all_iff m_def)
qed


subsection \<open>The pairs of the join\<close>

lemma join_indexers_set:
  "set (join_indexers lkeys rkeys)
   = {(Some i, Some j) | i j. i < length lkeys \<and> j < length rkeys \<and> lkeys ! i = rkeys ! j} \<union>
     ({(Some i, None) | i. i < length lkeys \<and> lkeys ! i \<notin> set rkeys} \<union>
      {(None, Some j) | j. j < length rkeys \<and> rkeys ! j \<notin> set lkeys})"
proof -
  have split: "set (join_indexers lkeys rkeys)
        = set (filter (\<lambda>p. indicator p = both) (join_indexers lkeys rkeys)) \<union>
          set (filter (\<lambda>p. indicator p \<noteq> both) (join_indexers lkeys rkeys))"
    by auto
  have rest: "set (filter (\<lambda>p. indicator p \<noteq> both) (join_indexers lkeys rkeys))
        = {(Some i, None) | i. i < length lkeys \<and> lkeys ! i \<notin> set rkeys} \<union>
          {(None, Some j) | j. j < length rkeys \<and> rkeys ! j \<notin> set lkeys}"
    by (auto simp: unmatched_base_eq matches_empty split: if_splits)
  show ?thesis
    by (subst split) (simp only: rest matched_base_set)
qed

subsection \<open>When the matcher returns\<close>

lemma nth_not_in_take:
  assumes "distinct xs" and "k < length xs"
  shows "xs ! k \<notin> set (take k xs)"
proof -
  have "xs = take k xs @ xs ! k # drop (Suc k) xs" using assms(2) by (rule id_take_nth_drop)
  then have "distinct (take k xs @ xs ! k # drop (Suc k) xs)" using assms(1) by simp
  then show ?thesis by simp
qed

lemma distinct_no_clash:
  assumes "distinct renamed"
  shows "\<not> suffix_clash renamed original"
  using nth_not_in_take[OF assms]
  by (auto simp: suffix_clash_def duplicated_def list_ex_iff)

lemma with_suffix_distinct:
  assumes "distinct labels"
    and "\<And>c. c \<in> set labels \<Longrightarrow> c \<in> set others \<Longrightarrow> c @ sfx \<notin> set labels"
  shows "distinct (with_suffix others sfx labels)"
proof -
  have "inj_on (\<lambda>c. if c \<in> set others then c @ sfx else c) (set labels)"
    using assms(2) by (auto simp: inj_on_def split: if_splits)
  with assms(1) show ?thesis by (simp add: with_suffix_def distinct_map)
qed

lemma no_suffix_clash:
  assumes "wf_frame l" and "wf_frame r" and "suffix_safe l r"
  shows "\<not> suffix_clash (with_suffix (columns (right_side r lk rk lkeys)) (py ''_x'')
                          (columns (left_side l lk rk lkeys)))
                        (columns (left_side l lk rk lkeys))"
    and "\<not> suffix_clash (with_suffix (columns (left_side l lk rk lkeys)) (py ''_y'')
                          (columns (right_side r lk rk lkeys)))
                        (columns (right_side r lk rk lkeys))"
proof -
  define l' where "l' = left_side l lk rk lkeys"
  define r' where "r' = right_side r lk rk lkeys"
  have dl: "distinct (columns l')" and dr: "distinct (columns r')"
    using wf_sides[OF assms(1,2), of lk rk lkeys] by (simp_all add: wf_frame_def l'_def r'_def)
  have sl: "set (columns l') \<subseteq> set (columns l)" and sr: "set (columns r') \<subseteq> set (columns r)"
    using side_columns[of l lk rk lkeys] side_columns(2)[of r lk rk lkeys]
    by (simp_all add: l'_def r'_def)
  have safe: "c @ py ''_x'' \<notin> set (columns l) \<and> c @ py ''_y'' \<notin> set (columns r)"
    if "c \<in> set (columns l)" "c \<in> set (columns r)" for c
    using assms(3) that by (auto simp: suffix_safe_def list_all_iff split: if_splits)
  have "distinct (with_suffix (columns r') (py ''_x'') (columns l'))"
    using dl safe sl sr by (intro with_suffix_distinct) auto
  then show "\<not> suffix_clash (with_suffix (columns (right_side r lk rk lkeys)) (py ''_x'')
                          (columns (left_side l lk rk lkeys)))
                        (columns (left_side l lk rk lkeys))"
    unfolding l'_def r'_def by (rule distinct_no_clash)
  have "distinct (with_suffix (columns l') (py ''_y'') (columns r'))"
    using dr safe sl sr by (intro with_suffix_distinct) auto
  then show "\<not> suffix_clash (with_suffix (columns (left_side l lk rk lkeys)) (py ''_y'')
                          (columns (right_side r lk rk lkeys)))
                        (columns (right_side r lk rk lkeys))"
    unfolding l'_def r'_def by (rule distinct_no_clash)
qed

lemma getitem_indicator:
  assumes "wf_frame l" and "wf_frame r"
    and "py ''_merge'' \<notin> set (columns l)" and "py ''_merge'' \<notin> set (columns r)"
  shows "getitem (merge_frame l r lk rk lkeys rkeys ix) (py ''_merge'')
         = Inr (Series (map indicator ix))"
proof -
  define l' where "l' = left_side l lk rk lkeys"
  define r' where "r' = right_side r lk rk lkeys"
  define A where "A = with_suffix (columns r') (py ''_x'') (columns l') @
                     with_suffix (columns l') (py ''_y'') (columns r')"
  define C where "C = map (\<lambda>f. map f ix)
     (map (\<lambda>(c, s). if lk = rk \<and> c = lk then key_cell lkeys rkeys else left_cell s)
        (zip (columns l') (colvals l')) @
      map (\<lambda>(c, s). if lk = rk \<and> c = rk then key_cell lkeys rkeys else right_cell s)
        (zip (columns r') (colvals r')))"
  have wl: "wf_frame l'" and wr: "wf_frame r'"
    using wf_sides[OF assms(1,2)] by (simp_all add: l'_def r'_def)
  have nl: "py ''_merge'' \<notin> set (columns l')" and nr: "py ''_merge'' \<notin> set (columns r')"
    using assms(3,4) side_columns[of l lk rk lkeys] side_columns(2)[of r lk rk lkeys]
    by (auto simp: l'_def r'_def)
  have notin: "py ''_merge'' \<notin> set A"
    using with_suffix_not_merge(1)[OF nl] with_suffix_not_merge(2)[OF nr] by (simp add: A_def)
  have len: "length C = length A"
    using wl wr by (simp add: C_def A_def with_suffix_def wf_frame_def)
  have cols: "columns (merge_frame l r lk rk lkeys rkeys ix) = A @ [py ''_merge'']"
    by (simp add: merge_frame_def Let_def merged_columns_def A_def l'_def r'_def)
  have vals: "colvals (merge_frame l r lk rk lkeys rkeys ix) = C @ [map indicator ix]"
    by (simp add: merge_frame_def Let_def merged_cells_def C_def l'_def r'_def)
  from zip_last_label[OF notin, of C "map indicator ix"] len show ?thesis
    by (simp add: getitem_def cols vals)
qed

lemma match_data_returns:
  assumes "wf_frame l" and "wf_frame r"
    and "key_values l lk = Inr lkeys" and "key_values r rk = Inr rkeys"
    and "\<not> key_mismatch lkeys rkeys" and "no_reserved l" and "no_reserved r"
    and "suffix_safe l r"
  shows "match_data order l r lk rk
         = Inr (merge_frame l r lk rk lkeys rkeys (matched_pairs order lkeys rkeys),
                merge_frame l r lk rk lkeys rkeys (unmatched_pairs order lkeys rkeys))"
proof -
  have free: "\<not> list_ex (\<lambda>c. c \<in> set (columns l) \<or> c \<in> set (columns r)) reserved_labels"
    using assms(6,7) by (auto simp: no_reserved_def list_all_iff list_ex_iff)
  have nl: "py ''_merge'' \<notin> set (columns l)" and nr: "py ''_merge'' \<notin> set (columns r)"
    using assms(6,7) by (auto simp: no_reserved_def reserved_labels_def)
  have merged: "pd_merge order l r lk rk
        = Inr (merge_frame l r lk rk lkeys rkeys (order (join_indexers lkeys rkeys)))"
    using assms(3,4,5) free no_suffix_clash[OF assms(1,2,8), of lk rk lkeys]
    by (simp add: pd_merge_def Let_def)
  show ?thesis
    using select_rows_merge_frame[of l r lk rk lkeys rkeys "order (join_indexers lkeys rkeys)"]
    by (simp add: match_data_def merged getitem_indicator[OF assms(1,2) nl nr]
        matched_pairs_def unmatched_pairs_def comp_def)
qed

lemma key_length:
  assumes "wf_frame df" and "key_values df label = Inr keys"
  shows "length keys = nrows df"
proof -
  from key_in_zip[OF assms(2)] have "keys \<in> set (colvals df)" by (auto dest: set_zip_rightD)
  with assms(1) show ?thesis by (auto simp: wf_frame_def list_all_iff)
qed

subsection \<open>The two partitions\<close>



text \<open>
  C4. Two tables whose labels are pairwise different, that have their key column, whose
  key columns hold one kind of value and that have no reserved label and no label that
  clashes once suffixed, are always matched: the matcher returns. \<open>matched\<close> then has one
  row for every combination of a left row and a right row of equal key, and no other
  row: the matched pairs are pairwise different, they are exactly the pairs \<open>(i, j)\<close> with
  \<open>lkeys ! i = rkeys ! j\<close>, and the row of each pair holds left row \<open>i\<close> and right row \<open>j\<close>.
  The number of rows of \<open>matched\<close> is the number of such combinations, in every order of
  the rows. Two left rows of key 5 and one right row of key 5 give 2 matched rows.
\<close>

theorem match_data_cross_product:
  assumes "wf_frame l" and "wf_frame r" and "arrangement order"
    and "key_values l lk = Inr lkeys" and "key_values r rk = Inr rkeys"
    and "\<not> key_mismatch lkeys rkeys" and "no_reserved l" and "no_reserved r"
    and "suffix_safe l r"
  shows "\<exists>m u. match_data order l r lk rk = Inr (m, u) \<and>
           nrows m = card {(i, j). i < nrows l \<and> j < nrows r \<and> lkeys ! i = rkeys ! j} \<and>
           nrows m = length (matched_pairs order lkeys rkeys) \<and>
           distinct (matched_pairs order lkeys rkeys) \<and>
           set (matched_pairs order lkeys rkeys)
             = {(Some i, Some j) | i j. i < nrows l \<and> j < nrows r \<and> lkeys ! i = rkeys ! j} \<and>
           (\<forall>n<nrows m. \<forall>i j. matched_pairs order lkeys rkeys ! n = (Some i, Some j) \<longrightarrow>
              holds_row (py ''_x'') m n l i \<and> holds_row (py ''_y'') m n r j)"
proof -
  let ?pm = "matched_pairs order lkeys rkeys"
  define m where "m = merge_frame l r lk rk lkeys rkeys ?pm"
  define u where "u = merge_frame l r lk rk lkeys rkeys (unmatched_pairs order lkeys rkeys)"
  note ll = key_length[OF assms(1,4)] and lr = key_length[OF assms(2,5)]
  have run: "match_data order l r lk rk = Inr (m, u)"
    unfolding m_def u_def by (rule match_data_returns[OF assms(1,2,4,5,6,7,8,9)])
  have rows: "nrows m = length ?pm" by (simp add: m_def nrows_merge_frame)
  have held: "holds_row (py ''_x'') m n l i \<and> holds_row (py ''_y'') m n r j"
    if n: "n < nrows m" and p: "?pm ! n = (Some i, Some j)" for n i j
  proof -
    from n rows have n': "n < length ?pm" by simp
    then have "?pm ! n \<in> set ?pm" by simp
    with p have ij: "i < length lkeys" "j < length rkeys" "lkeys ! i = rkeys ! j"
      unfolding matched_pairs_set[OF assms(3)] by auto
    have "holds_row (py ''_x'') m n l i"
      unfolding m_def using p ij by (intro holds_left[OF assms(1,2,4) n']) simp_all
    moreover have "holds_row (py ''_y'') m n r j"
      unfolding m_def using p ij by (intro holds_right[OF assms(1,2,4,5) n']) simp_all
    ultimately show ?thesis by simp
  qed
  from run rows held matched_pairs_distinct[OF assms(3), of lkeys rkeys]
    matched_pairs_set[OF assms(3), of lkeys rkeys]
    matched_pairs_card[OF assms(3), of lkeys rkeys] ll lr
  show ?thesis by auto
qed

theorem match_data_cross_product_witness:
  "wf_frame ex_two_fives \<and> wf_frame ex_one_five \<and> arrangement (\<lambda>ps. ps) \<and>
   key_values ex_two_fives (py ''k'') = Inr [Some (SInt 5), Some (SInt 5)] \<and>
   key_values ex_one_five (py ''k'') = Inr [Some (SInt 5)] \<and>
   \<not> key_mismatch [Some (SInt 5), Some (SInt 5)] [Some (SInt 5)] \<and>
   no_reserved ex_two_fives \<and> no_reserved ex_one_five \<and> suffix_safe ex_two_fives ex_one_five \<and>
   match_data (\<lambda>ps. ps) ex_two_fives ex_one_five (py ''k'') (py ''k'')
     = Inr (\<lparr>columns = [py ''k'', py ''a'', py ''b'', py ''_merge''],
             colvals = [[Some (SInt 5), Some (SInt 5)],
                        [Some (SInt 10), Some (SInt 20)],
                        [Some (SInt 30), Some (SInt 30)],
                        [Some (SStr (py ''both'')), Some (SStr (py ''both''))]]\<rparr>,
            \<lparr>columns = [py ''k'', py ''a'', py ''b'', py ''_merge''],
             colvals = [[], [], [], []]\<rparr>) \<and>
   card {(i, j). i < nrows ex_two_fives \<and> j < nrows ex_one_five \<and>
                 [Some (SInt 5), Some (SInt 5)] ! i = [Some (SInt 5)] ! j} = 2"
proof -
  let ?lkeys = "[Some (SInt 5), Some (SInt 5)]" and ?rkeys = "[Some (SInt 5)]"
  let ?m = "\<lparr>columns = [py ''k'', py ''a'', py ''b'', py ''_merge''],
             colvals = [[Some (SInt 5), Some (SInt 5)],
                        [Some (SInt 10), Some (SInt 20)],
                        [Some (SInt 30), Some (SInt 30)],
                        [Some (SStr (py ''both'')), Some (SStr (py ''both''))]]\<rparr>"
  let ?u = "\<lparr>columns = [py ''k'', py ''a'', py ''b'', py ''_merge''],
             colvals = [[], [], [], []]\<rparr>"
  have wl: "wf_frame ex_two_fives" and wr: "wf_frame ex_one_five" by code_simp+
  have arr: "arrangement (\<lambda>ps. ps)" by (simp add: arrangement_def)
  have lkeys: "key_values ex_two_fives (py ''k'') = Inr ?lkeys" by code_simp
  have rkeys: "key_values ex_one_five (py ''k'') = Inr ?rkeys" by code_simp
  have kinds: "\<not> key_mismatch ?lkeys ?rkeys" by code_simp
  have labels: "no_reserved ex_two_fives" "no_reserved ex_one_five"
    "suffix_safe ex_two_fives ex_one_five"
    by code_simp+
  have run: "match_data (\<lambda>ps. ps) ex_two_fives ex_one_five (py ''k'') (py ''k'') = Inr (?m, ?u)"
    by code_simp
  have rows: "nrows ?m = 2" by code_simp
  from match_data_cross_product[OF wl wr arr lkeys rkeys kinds labels] run rows
  have "card {(i, j). i < nrows ex_two_fives \<and> j < nrows ex_one_five \<and>
                      ?lkeys ! i = ?rkeys ! j} = 2"
    by auto
  with wl wr arr lkeys rkeys kinds labels run show ?thesis by simp
qed

text \<open>
  C10. Whenever the matcher returns, both returned tables have the column \<open>_merge\<close>, as
  their last column, and neither input has a column of that name (\<open>pd.merge\<close> refuses
  such an input). The matcher does not remove the column: the caller does, and
  \<open>drop(columns=["_merge"])\<close> on either returned table succeeds and gives a table
  without it.
\<close>

theorem match_data_indicator_column:
  assumes "match_data order l r lk rk = Inr (m, u)"
  shows "py ''_merge'' \<in> set (columns m) \<and> py ''_merge'' \<in> set (columns u) \<and>
         last (columns m) = py ''_merge'' \<and> last (columns u) = py ''_merge'' \<and>
         py ''_merge'' \<notin> set (columns l) \<and> py ''_merge'' \<notin> set (columns r) \<and>
         (\<exists>m' u'. drop_columns m [py ''_merge''] = Inr m' \<and>
                  drop_columns u [py ''_merge''] = Inr u' \<and>
                  py ''_merge'' \<notin> set (columns m') \<and> py ''_merge'' \<notin> set (columns u'))"
proof -
  from match_data_Inr[OF assms] obtain lkeys rkeys where
    inputs: "py ''_merge'' \<notin> set (columns l)" "py ''_merge'' \<notin> set (columns r)" and
    m: "m = merge_frame l r lk rk lkeys rkeys (matched_pairs order lkeys rkeys)" and
    u: "u = merge_frame l r lk rk lkeys rkeys (unmatched_pairs order lkeys rkeys)"
    by blast
  have cols: "py ''_merge'' \<in> set (columns (merge_frame l r lk rk lkeys rkeys ix)) \<and>
              last (columns (merge_frame l r lk rk lkeys rkeys ix)) = py ''_merge''" for ix
    by (simp add: merge_frame_def Let_def merged_columns_def)
  have dropped: "\<exists>d. drop_columns df [py ''_merge''] = Inr d \<and> py ''_merge'' \<notin> set (columns d)"
    if "py ''_merge'' \<in> set (columns df)" for df
    using that by (simp add: drop_columns_def)
  from cols[of "matched_pairs order lkeys rkeys"] cols[of "unmatched_pairs order lkeys rkeys"] m u
  have present: "py ''_merge'' \<in> set (columns m)" "py ''_merge'' \<in> set (columns u)"
    "last (columns m) = py ''_merge''" "last (columns u) = py ''_merge''"
    by simp_all
  from dropped[OF present(1)] dropped[OF present(2)] present inputs
  show ?thesis by blast
qed

theorem match_data_indicator_column_witness:
  "match_data (\<lambda>ps. ps) ex_meta ex_cust (py ''id'') (py ''cust_id'')
     = Inr (\<lparr>columns = [py ''id'', py ''file_x'', py ''cust_id'', py ''file_y'', py ''_merge''],
             colvals = [[Some (SInt 1)], [Some (SStr (py ''a.jpg''))],
                        [Some (SInt 1)], [Some (SStr (py ''a.jpg''))],
                        [Some (SStr (py ''both''))]]\<rparr>,
            \<lparr>columns = [py ''id'', py ''file_x'', py ''cust_id'', py ''file_y'', py ''_merge''],
             colvals = [[Some (SInt 2), None], [Some (SStr (py ''b.jpg'')), None],
                        [None, Some (SInt 3)], [None, Some (SStr (py ''c.jpg''))],
                        [Some (SStr (py ''left_only'')), Some (SStr (py ''right_only''))]]\<rparr>) \<and>
   py ''_merge'' \<notin> set (columns ex_meta) \<and> py ''_merge'' \<notin> set (columns ex_cust)"
proof -
  have run: "match_data (\<lambda>ps. ps) ex_meta ex_cust (py ''id'') (py ''cust_id'')
     = Inr (\<lparr>columns = [py ''id'', py ''file_x'', py ''cust_id'', py ''file_y'', py ''_merge''],
             colvals = [[Some (SInt 1)], [Some (SStr (py ''a.jpg''))],
                        [Some (SInt 1)], [Some (SStr (py ''a.jpg''))],
                        [Some (SStr (py ''both''))]]\<rparr>,
            \<lparr>columns = [py ''id'', py ''file_x'', py ''cust_id'', py ''file_y'', py ''_merge''],
             colvals = [[Some (SInt 2), None], [Some (SStr (py ''b.jpg'')), None],
                        [None, Some (SInt 3)], [None, Some (SStr (py ''c.jpg''))],
                        [Some (SStr (py ''left_only'')), Some (SStr (py ''right_only''))]]\<rparr>)"
    by code_simp
  from match_data_indicator_column[OF run] run show ?thesis by simp
qed

section \<open>Properties of file parsing\<close>

lemma those_map_total:
  assumes "\<And>x. x \<in> set xs \<Longrightarrow> f x = Some (g x)"
  shows "those (map f xs) = Some (map g xs)"
  using assms by (induction xs) auto

lemma decode_ascii:
  assumes "list_all (\<lambda>b. b < 128) bs"
  shows "decode_utf8 bs = Inr bs"
  using assms
  by (induction bs) (simp_all add: sequence_length_def well_formed_def code_point_def)

lemma filetypes_differ: "py ''JSON'' \<noteq> py ''CSV''"
  by (simp add: py_def)

text \<open>
  C6 (as amended). A CSV input in the covered form (comma-separated lines without quote
  characters or blank lines, a header of pairwise different words, rows of as many fields
  as the header) whose columns are each a column of integer literals of 64 bits or a
  column of words and empty fields is parsed without a diagnostic into the table of
  those columns under the header's labels: the fields of a column of integer literals
  become integers, the fields of a column of words become strings, and an empty field
  there becomes a null.
\<close>

theorem parse_metadata_csv_types:
  assumes "decode_utf8 file_content = Inr text" and "csv_table text header body"
    and "list_all (\<lambda>k. int_column (csv_column body k) \<or> word_column (csv_column body k))
           [0..<length header]"
  shows "parse_metadata et_parse file_content (py ''CSV'') filename
         = Some (\<lparr>columns = header,
                  colvals = map (\<lambda>k. if int_column (csv_column body k)
                                     then map (\<lambda>f. Some (SInt (int_value f))) (csv_column body k)
                                     else map (\<lambda>f. if f = [] then None else Some (SStr f))
                                            (csv_column body k))
                              [0..<length header]\<rparr>, [])"
proof -
  let ?typed = "\<lambda>k. if int_column (csv_column body k)
                     then map (\<lambda>f. Some (SInt (int_value f))) (csv_column body k)
                     else map (\<lambda>f. if f = [] then None else Some (SStr f)) (csv_column body k)"
  have "infer_column (csv_column body k) = Some (?typed k)" if "k \<in> set [0..<length header]" for k
    using assms(3) that by (auto simp: infer_column_def list_all_iff)
  then have cols: "those (map (\<lambda>k. infer_column (csv_column body k)) [0..<length header])
                   = Some (map ?typed [0..<length header])"
    by (rule those_map_total)
  from assms(2) have nonempty: "text \<noteq> []"
    and lines: "map (split_on 44) (csv_lines text) = header # body"
    by (simp_all add: csv_table_def)
  have "pd_read_csv text = Some (Inr \<lparr>columns = header, colvals = map ?typed [0..<length header]\<rparr>)"
    using nonempty assms(2) cols by (simp add: pd_read_csv_def lines)
  then show ?thesis
    using assms(1) by (simp add: parse_metadata_def parse_body_def)
qed

theorem parse_metadata_csv_types_witness:
  "decode_utf8 ex_csv = Inr ex_csv \<and>
   csv_table ex_csv [py ''id'', py ''file''] [[py ''1'', py ''a.jpg''], [py ''2'', py ''b.jpg'']] \<and>
   int_column [py ''1'', py ''2''] \<and> word_column [py ''a.jpg'', py ''b.jpg''] \<and>
   parse_metadata no_parser ex_csv (py ''CSV'') (py ''meta.csv'')
     = Some (\<lparr>columns = [py ''id'', py ''file''],
              colvals = [[Some (SInt 1), Some (SInt 2)],
                         [Some (SStr (py ''a.jpg'')), Some (SStr (py ''b.jpg''))]]\<rparr>, [])"
proof -
  let ?body = "[[py ''1'', py ''a.jpg''], [py ''2'', py ''b.jpg'']]"
  have dec: "decode_utf8 ex_csv = Inr ex_csv"
    by (rule decode_ascii) (simp add: ex_csv_def py_def)
  have tab: "csv_table ex_csv [py ''id'', py ''file''] ?body" by code_simp
  have kinds: "int_column [py ''1'', py ''2'']" "word_column [py ''a.jpg'', py ''b.jpg'']"
    by code_simp+
  have cols: "list_all (\<lambda>k. int_column (csv_column ?body k) \<or> word_column (csv_column ?body k))
                [0..<length [py ''id'', py ''file'']]"
    by code_simp
  have typed: "map (\<lambda>k. if int_column (csv_column ?body k)
                        then map (\<lambda>f. Some (SInt (int_value f))) (csv_column ?body k)
                        else map (\<lambda>f. if f = [] then None else Some (SStr f)) (csv_column ?body k))
                 [0..<length [py ''id'', py ''file'']]
               = [[Some (SInt 1), Some (SInt 2)],
                  [Some (SStr (py ''a.jpg'')), Some (SStr (py ''b.jpg''))]]"
    by code_simp
  from parse_metadata_csv_types[OF dec tab cols, of no_parser "py ''meta.csv''"] typed
  have "parse_metadata no_parser ex_csv (py ''CSV'') (py ''meta.csv'')
     = Some (\<lparr>columns = [py ''id'', py ''file''],
              colvals = [[Some (SInt 1), Some (SInt 2)],
                         [Some (SStr (py ''a.jpg'')), Some (SStr (py ''b.jpg''))]]\<rparr>, [])"
    by simp
  with dec tab kinds show ?thesis by simp
qed

text \<open>
  C6 as stated fails: the file of the specification's own scenario,
  \<open>id,file\<close> / \<open>1,a.jpg\<close> / \<open>2,b.jpg\<close>, is parsed into a table whose column \<open>id\<close> holds the
  integers 1 and 2, not the strings \<open>"1"\<close> and \<open>"2"\<close>.
\<close>

theorem parse_metadata_csv_infers_integers:
  "parse_metadata no_parser ex_csv (py ''CSV'') (py ''meta.csv'')
     = Some (\<lparr>columns = [py ''id'', py ''file''],
              colvals = [[Some (SInt 1), Some (SInt 2)],
                         [Some (SStr (py ''a.jpg'')), Some (SStr (py ''b.jpg''))]]\<rparr>, []) \<and>
   \<not> string_cells \<lparr>columns = [py ''id'', py ''file''],
                     colvals = [[Some (SInt 1), Some (SInt 2)],
                                [Some (SStr (py ''a.jpg'')), Some (SStr (py ''b.jpg''))]]\<rparr>"
proof -
  have dec: "decode_utf8 ex_csv = Inr ex_csv"
    by (rule decode_ascii) (simp add: ex_csv_def py_def)
  have read: "pd_read_csv ex_csv
     = Some (Inr \<lparr>columns = [py ''id'', py ''file''],
                   colvals = [[Some (SInt 1), Some (SInt 2)],
                              [Some (SStr (py ''a.jpg'')), Some (SStr (py ''b.jpg''))]]\<rparr>)"
    by code_simp
  have cells: "\<not> string_cells \<lparr>columns = [py ''id'', py ''file''],
                     colvals = [[Some (SInt 1), Some (SInt 2)],
                                [Some (SStr (py ''a.jpg'')), Some (SStr (py ''b.jpg''))]]\<rparr>"
    by (simp add: string_cells_def)
  from dec read cells show ?thesis by (simp add: parse_metadata_def parse_body_def)
qed

text \<open>
  C5 (as amended). A JSON input whose top-level value is an integer, a string or a truth
  value is no table: parsing yields the empty table and one diagnostic, which names the
  file and the \<open>ValueError\<close> of the \<open>DataFrame\<close> constructor.
\<close>

theorem parse_metadata_json_scalar:
  assumes "decode_utf8 file_content = Inr text" and "json_loads text = Some v"
    and "top_level_scalar v"
  shows "parse_metadata et_parse file_content (py ''JSON'') filename
         = Some (empty_frame, [StError filename ValueError])"
proof -
  from assms(3) have "frame_of_json v = Some (Inl ValueError)" by (cases v) simp_all
  with assms(2) have "pd_read_json text = Some (Inl ValueError)" by (simp add: pd_read_json_def)
  with assms(1) show ?thesis
    by (simp add: parse_metadata_def parse_body_def filetypes_differ)
qed

theorem parse_metadata_json_scalar_witness:
  "decode_utf8 ex_json_number = Inr (py ''42'') \<and> json_loads (py ''42'') = Some (JInt 42) \<and>
   top_level_scalar (JInt 42) \<and>
   parse_metadata no_parser ex_json_number (py ''JSON'') (py ''meta.json'')
     = Some (empty_frame, [StError (py ''meta.json'') ValueError])"
proof -
  have dec: "decode_utf8 ex_json_number = Inr (py ''42'')"
    using decode_ascii[of ex_json_number] by (simp add: ex_json_number_def py_def)
  have val: "json_loads (py ''42'') = Some (JInt 42)" by code_simp
  have top: "top_level_scalar (JInt 42)" by simp
  from parse_metadata_json_scalar[OF dec val top, of no_parser "py ''meta.json''"] dec val top
  show ?thesis by simp
qed

text \<open>
  C5 as stated fails: the document \<open>{"id":{"0":1,"1":2}}\<close> has an object, not an array,
  at its top level, and it is parsed without a diagnostic into a table with the column
  \<open>id\<close> and two rows.
\<close>

theorem parse_metadata_json_object_accepted:
  "(case decode_utf8 ex_json_columns of
      Inl e \<Rightarrow> False
    | Inr text \<Rightarrow> (case json_loads text of None \<Rightarrow> False | Some v \<Rightarrow> \<not> top_level_array v)) \<and>
   parse_metadata no_parser ex_json_columns (py ''JSON'') (py ''meta.json'')
     = Some (\<lparr>columns = [py ''id''], colvals = [[Some (SInt 1), Some (SInt 2)]]\<rparr>, [])"
proof -
  have dec: "decode_utf8 ex_json_columns = Inr ex_json_columns"
    by (rule decode_ascii) (simp add: ex_json_columns_def py_def)
  have val: "json_loads ex_json_columns
             = Some (JObj [(py ''id'', JObj [(py ''0'', JInt 1), (py ''1'', JInt 2)])])"
    by code_simp
  have read: "pd_read_json ex_json_columns
     = Some (Inr \<lparr>columns = [py ''id''], colvals = [[Some (SInt 1), Some (SInt 2)]]\<rparr>)"
    by code_simp
  from dec val read show ?thesis
    by (simp add: parse_metadata_def parse_body_def filetypes_differ)
qed

end
